theory Spec2Isabelle
  imports Main
begin

section \<open>The customer model of erxes: data\<close>

text \<open>
  The TypeScript class \<open>Customer\<close> works on a mongoose collection \<open>Customers\<close> and on
  five sibling models. Optional properties of a document (\<open>primaryEmail?: string\<close>) are
  \<open>option\<close> values, \<open>None\<close> standing for \<open>undefined\<close>. Identifiers are strings.
\<close>

datatype twitterData = TwitterData (twitterData_id: int)

datatype facebookData = FacebookData (facebookData_id: string)

type_synonym customFields = "(string \<times> string) list"

text \<open>
  \<open>ICreateCustomerInput\<close>. The attributes that no operation below reads (\<open>firstName\<close>,
  \<open>lastName\<close>, \<open>position\<close>, \<open>department\<close>, \<open>leadStatus\<close>, \<open>lifecycleState\<close>,
  \<open>hasAuthority\<close>, \<open>description\<close>, \<open>doNotDisturb\<close>, \<open>links\<close>, \<open>isUser\<close>,
  \<open>messengerData\<close>, \<open>location\<close>, \<open>visitorContactInfo\<close>, \<open>urlVisits\<close>) are kept together
  as the key/value list \<open>otherFields\<close>; they are only ever copied.
\<close>

record customerInput =
  primaryEmail :: "string option"
  emails :: "string list option"
  primaryPhone :: "string option"
  phones :: "string list option"
  ownerId :: "string option"
  integrationId :: "string option"
  tagIds :: "string list option"
  companyIds :: "string list option"
  customFieldsData :: "customFields option"
  twitterData :: "twitterData option"
  facebookData :: "facebookData option"
  otherFields :: "(string \<times> string) list"

text \<open>\<open>ICustomerDocument\<close>: the input's fields, the identifier \<open>_id\<close> and the timestamps.\<close>

record customer = customerInput +
  customer_id :: string
  createdAt :: nat
  modifiedAt :: nat

record user =
  user_id :: string

record company =
  company_id :: string
  company_name :: string
  company_website :: string

text \<open>The second argument of \<open>checkDuplication\<close>: \<open>idsToExclude?: string[] | string\<close>.\<close>

datatype idsToExclude = Single string | Many "string list"

subsection \<open>Queries\<close>

text \<open>
  A mongo query object is the conjunction of its keys. Only the keys the class uses are
  modelled: \<open>_id\<close> with \<open>$nin\<close>, \<open>$ne\<close> or a plain value, \<open>twitterData.id\<close>,
  \<open>facebookData.id\<close>, \<open>primaryEmail\<close>, \<open>primaryPhone\<close>, and \<open>$in\<close> on the array fields
  \<open>emails\<close> and \<open>phones\<close>.
\<close>

datatype cond =
    Id_nin "string list"
  | Id_ne string
  | Id_eq string
  | TwitterDataId int
  | FacebookDataId string
  | PrimaryEmail string
  | Emails_in "string list"
  | PrimaryPhone string
  | Phones_in "string list"

type_synonym query = "cond list"

fun satisfies :: "customer \<Rightarrow> cond \<Rightarrow> bool" where
  "satisfies c (Id_nin ids) = (customer_id c \<notin> set ids)"
| "satisfies c (Id_ne i) = (customer_id c \<noteq> i)"
| "satisfies c (Id_eq i) = (customer_id c = i)"
| "satisfies c (TwitterDataId t) =
     (case twitterData c of None \<Rightarrow> False | Some td \<Rightarrow> twitterData_id td = t)"
| "satisfies c (FacebookDataId f) =
     (case facebookData c of None \<Rightarrow> False | Some fd \<Rightarrow> facebookData_id fd = f)"
| "satisfies c (PrimaryEmail e) = (primaryEmail c = Some e)"
| "satisfies c (Emails_in es) =
     (case emails c of None \<Rightarrow> False | Some xs \<Rightarrow> \<exists>x \<in> set xs. x \<in> set es)"
| "satisfies c (PrimaryPhone p) = (primaryPhone c = Some p)"
| "satisfies c (Phones_in ps) =
     (case phones c of None \<Rightarrow> False | Some xs \<Rightarrow> \<exists>x \<in> set xs. x \<in> set ps)"

definition matches :: "query \<Rightarrow> customer \<Rightarrow> bool" where
  "matches q c = list_all (satisfies c) q"

subsection \<open>Errors, collaborators and the world\<close>

text \<open>\<open>new Error(message)\<close>; the duplication checker throws four messages.\<close>

datatype error = Error string

text \<open>
  The calls to the sibling models \<open>ActivityLogs\<close>, \<open>Conversations\<close>, \<open>EngageMessages\<close>,
  \<open>InternalNotes\<close>, \<open>Fields\<close> and \<open>Companies\<close>. Their code is outside this class.
\<close>

datatype collaborator = ActivityLogs | Conversations | EngageMessages | InternalNotes

datatype call =
    RemoveCustomerActivityLog string
  | RemoveCustomerConversations string
  | RemoveCustomerEngages string
  | RemoveCustomerInternalNotes string
  | ChangeCustomer collaborator string "string list"
  | CleanMulti customFields
  | CreateCompany string string

text \<open>Every awaited call leaves an event, in the order the calls are made.\<close>

datatype event =
    CustomersFind query
  | CustomersFindOne query
  | CustomersRemove query
  | CustomersCreate customer
  | CustomersUpdate query
  | Called call

record world =
  customers :: "customer list"
  trace :: "event list"

text \<open>
  What the class cannot decide itself: the identifier mongoose gives a created document,
  the value of \<open>new Date()\<close>, the results of \<open>Fields.cleanMulti\<close> and
  \<open>Companies.createCompany\<close>, and whether a call to a sibling model rejects
  (\<open>Some e\<close>) or resolves (\<open>None\<close>).
\<close>

record env =
  genId :: string
  now :: nat
  cleanMulti :: "customFields \<Rightarrow> error + customFields"
  createCompany :: "string \<Rightarrow> string \<Rightarrow> error + company"
  rejects :: "call \<Rightarrow> error option"

subsection \<open>Awaited computations\<close>

text \<open>
  An async method is a function from the world to a result and the world it leaves. A
  rejected promise (\<open>Inl\<close>) skips the rest of the method, with the world as it is then.
\<close>

type_synonym 'a promise = "world \<Rightarrow> (error + 'a) \<times> world"

definition resolve :: "'a \<Rightarrow> 'a promise" where
  "resolve x w = (Inr x, w)"

definition throw :: "error \<Rightarrow> 'a promise" where
  "throw e w = (Inl e, w)"

definition await :: "'a promise \<Rightarrow> ('a \<Rightarrow> 'b promise) \<Rightarrow> 'b promise" where
  "await m f w =
     (case m w of
        (Inl e, w') \<Rightarrow> (Inl e, w')
      | (Inr x, w') \<Rightarrow> f x w')"

definition logged :: "event \<Rightarrow> world \<Rightarrow> world" where
  "logged ev w = w\<lparr>trace := trace w @ [ev]\<rparr>"

text \<open>JavaScript truthiness of an optional string: \<open>undefined\<close> and \<open>""\<close> are falsy.\<close>

definition truthy :: "string option \<Rightarrow> bool" where
  "truthy s = (case s of None \<Rightarrow> False | Some x \<Rightarrow> x \<noteq> [])"

subsection \<open>The collection \<open>Customers\<close>\<close>

definition Customers_find :: "query \<Rightarrow> customer list promise" where
  "Customers_find q w = (Inr (filter (matches q) (customers w)), logged (CustomersFind q) w)"

definition Customers_findOne :: "query \<Rightarrow> customer option promise" where
  "Customers_findOne q w =
     (Inr (find (matches q) (customers w)), logged (CustomersFindOne q) w)"

definition Customers_remove :: "query \<Rightarrow> unit promise" where
  "Customers_remove q w =
     (Inr (),
      logged (CustomersRemove q) (w\<lparr>customers := filter (\<lambda>c. \<not> matches q c) (customers w)\<rparr>))"

definition Customers_create :: "customer \<Rightarrow> customer promise" where
  "Customers_create c w =
     (Inr c, logged (CustomersCreate c) (w\<lparr>customers := customers w @ [c]\<rparr>))"

text \<open>\<open>update\<close> and \<open>findByIdAndUpdate\<close> change the first document that matches.\<close>

fun updateFirst :: "(customer \<Rightarrow> bool) \<Rightarrow> (customer \<Rightarrow> customer) \<Rightarrow> customer list \<Rightarrow> customer list" where
  "updateFirst P f [] = []"
| "updateFirst P f (c # cs) = (if P c then f c # cs else c # updateFirst P f cs)"

definition Customers_update :: "query \<Rightarrow> (customer \<Rightarrow> customer) \<Rightarrow> unit promise" where
  "Customers_update q f w =
     (Inr (),
      logged (CustomersUpdate q) (w\<lparr>customers := updateFirst (matches q) f (customers w)\<rparr>))"

subsection \<open>The sibling models\<close>

definition invoke :: "env \<Rightarrow> call \<Rightarrow> unit promise" where
  "invoke env c w =
     (case rejects env c of
        Some e \<Rightarrow> (Inl e, logged (Called c) w)
      | None \<Rightarrow> (Inr (), logged (Called c) w))"

definition Fields_cleanMulti :: "env \<Rightarrow> customFields \<Rightarrow> customFields promise" where
  "Fields_cleanMulti env d w = (cleanMulti env d, logged (Called (CleanMulti d)) w)"

definition Companies_createCompany :: "env \<Rightarrow> string \<Rightarrow> string \<Rightarrow> company promise" where
  "Companies_createCompany env name website w =
     (createCompany env name website, logged (Called (CreateCompany name website)) w)"

section \<open>The class \<open>Customer\<close>\<close>

subsection \<open>\<open>checkDuplication\<close>\<close>

text \<open>
  \<open>previousEntry = await Customers.find(q); if (previousEntry.length > 0) throw new
  Error(msg)\<close>, the step the checker repeats six times.
\<close>

definition throwIfFound :: "query \<Rightarrow> string \<Rightarrow> unit promise" where
  "throwIfFound q msg =
     await (Customers_find q) (\<lambda>previousEntry.
       if length previousEntry > 0 then throw (Error msg) else resolve ())"

text \<open>
  \<open>if (idsToExclude)\<close>: an array is truthy even when empty, a string only when it is
  not empty.
\<close>

definition excludeQuery :: "idsToExclude option \<Rightarrow> query" where
  "excludeQuery idsToExclude =
     (case idsToExclude of
        None \<Rightarrow> []
      | Some (Many ids) \<Rightarrow> [Id_nin ids]
      | Some (Single i) \<Rightarrow> (if i \<noteq> [] then [Id_ne i] else []))"

definition checkDuplication :: "customerInput \<Rightarrow> idsToExclude option \<Rightarrow> unit promise" where
  "checkDuplication customerFields idsToExclude =
     (let query = excludeQuery idsToExclude in
      await (case twitterData customerFields of
               Some td \<Rightarrow> throwIfFound (query @ [TwitterDataId (twitterData_id td)]) ''Duplicated twitter''
             | None \<Rightarrow> resolve ()) (\<lambda>_.
      await (case facebookData customerFields of
               Some fd \<Rightarrow> throwIfFound (query @ [FacebookDataId (facebookData_id fd)]) ''Duplicated facebook''
             | None \<Rightarrow> resolve ()) (\<lambda>_.
      await (if truthy (primaryEmail customerFields) then
               await (throwIfFound (query @ [PrimaryEmail (the (primaryEmail customerFields))]) ''Duplicated email'') (\<lambda>_.
               throwIfFound (query @ [Emails_in [the (primaryEmail customerFields)]]) ''Duplicated email'')
             else resolve ()) (\<lambda>_.
      if truthy (primaryPhone customerFields) then
        await (throwIfFound (query @ [PrimaryPhone (the (primaryPhone customerFields))]) ''Duplicated phone'') (\<lambda>_.
        throwIfFound (query @ [Phones_in [the (primaryPhone customerFields)]]) ''Duplicated phone'')
      else resolve ()))))"

subsection \<open>\<open>createCustomer\<close>\<close>

text \<open>\<open>{ createdAt: new Date(), modifiedAt: new Date(), ...doc }\<close>, with the generated \<open>_id\<close>.\<close>

definition newDocument :: "env \<Rightarrow> customerInput \<Rightarrow> customer" where
  "newDocument env doc =
     \<lparr>primaryEmail = primaryEmail doc, emails = emails doc,
      primaryPhone = primaryPhone doc, phones = phones doc,
      ownerId = ownerId doc, integrationId = integrationId doc,
      tagIds = tagIds doc, companyIds = companyIds doc,
      customFieldsData = customFieldsData doc,
      twitterData = twitterData doc, facebookData = facebookData doc,
      otherFields = otherFields doc,
      customer_id = genId env, createdAt = now env, modifiedAt = now env\<rparr>"

definition createCustomer :: "env \<Rightarrow> customerInput \<Rightarrow> user option \<Rightarrow> customer promise" where
  "createCustomer env doc usr =
     await (checkDuplication doc None) (\<lambda>_.
       let doc1 = (if \<not> truthy (ownerId doc) \<and> usr \<noteq> None
                   then doc\<lparr>ownerId := Some (user_id (the usr))\<rparr> else doc) in
       await (Fields_cleanMulti env (case customFieldsData doc1 of Some d \<Rightarrow> d | None \<Rightarrow> [])) (\<lambda>cleaned.
         let doc2 = doc1\<lparr>customFieldsData := Some cleaned\<rparr> in
         Customers_create (newDocument env doc2)))"

subsection \<open>\<open>updateCustomer\<close>\<close>

text \<open>\<open>$set\<close> writes the properties the document has and leaves the others.\<close>

definition orElse :: "'a option \<Rightarrow> 'a option \<Rightarrow> 'a option" where
  "orElse new old = (case new of Some x \<Rightarrow> Some x | None \<Rightarrow> old)"

definition setFields :: "customerInput \<Rightarrow> nat \<Rightarrow> customer \<Rightarrow> customer" where
  "setFields doc t c =
     c\<lparr>primaryEmail := orElse (primaryEmail doc) (primaryEmail c),
       emails := orElse (emails doc) (emails c),
       primaryPhone := orElse (primaryPhone doc) (primaryPhone c),
       phones := orElse (phones doc) (phones c),
       ownerId := orElse (ownerId doc) (ownerId c),
       integrationId := orElse (integrationId doc) (integrationId c),
       tagIds := orElse (tagIds doc) (tagIds c),
       companyIds := orElse (companyIds doc) (companyIds c),
       customFieldsData := orElse (customFieldsData doc) (customFieldsData c),
       twitterData := orElse (twitterData doc) (twitterData c),
       facebookData := orElse (facebookData doc) (facebookData c),
       otherFields := otherFields doc @
         filter (\<lambda>kv. fst kv \<notin> fst ` set (otherFields doc)) (otherFields c),
       modifiedAt := t\<rparr>"

definition updateCustomer :: "env \<Rightarrow> string \<Rightarrow> customerInput \<Rightarrow> customer option promise" where
  "updateCustomer env i doc =
     await (checkDuplication doc (Some (Single i))) (\<lambda>_.
     await (case customFieldsData doc of
              Some d \<Rightarrow> await (Fields_cleanMulti env d) (\<lambda>cleaned.
                          resolve (doc\<lparr>customFieldsData := Some cleaned\<rparr>))
            | None \<Rightarrow> resolve doc) (\<lambda>doc1.
     await (Customers_update [Id_eq i] (setFields doc1 (now env))) (\<lambda>_.
     Customers_findOne [Id_eq i])))"

subsection \<open>\<open>addCompany\<close>\<close>

text \<open>\<open>$addToSet\<close> on \<open>companyIds\<close>.\<close>

definition addToSet :: "string \<Rightarrow> customer \<Rightarrow> customer" where
  "addToSet k c =
     c\<lparr>companyIds :=
         (case companyIds c of
            None \<Rightarrow> Some [k]
          | Some ks \<Rightarrow> if k \<in> set ks then Some ks else Some (ks @ [k]))\<rparr>"

definition addCompany :: "env \<Rightarrow> string \<Rightarrow> string \<Rightarrow> string \<Rightarrow> company promise" where
  "addCompany env i name website =
     await (Companies_createCompany env name website) (\<lambda>company.
     await (Customers_update [Id_eq i] (addToSet (company_id company))) (\<lambda>_.
     resolve company))"

subsection \<open>\<open>removeCustomer\<close>\<close>

definition removeCustomer :: "env \<Rightarrow> string \<Rightarrow> unit promise" where
  "removeCustomer env customerId =
     await (invoke env (RemoveCustomerActivityLog customerId)) (\<lambda>_.
     await (invoke env (RemoveCustomerConversations customerId)) (\<lambda>_.
     await (invoke env (RemoveCustomerEngages customerId)) (\<lambda>_.
     await (invoke env (RemoveCustomerInternalNotes customerId)) (\<lambda>_.
     Customers_remove [Id_eq customerId]))))"

subsection \<open>\<open>mergeCustomers\<close>\<close>

text \<open>\<open>x || []\<close> on an optional array.\<close>

definition orEmpty :: "'a list option \<Rightarrow> 'a list" where
  "orEmpty xs = (case xs of Some ys \<Rightarrow> ys | None \<Rightarrow> [])"

text \<open>\<open>Array.from(new Set(xs))\<close>: the first occurrence of each element, in order.\<close>

definition arrayFromSet :: "'a list \<Rightarrow> 'a list" where
  "arrayFromSet xs = foldl (\<lambda>s x. if x \<in> set s then s else s @ [x]) [] xs"

text \<open>
  The \<open>for\<close> loop over \<open>customerIds\<close>. Its state is \<open>customerFields\<close> (whose
  \<open>integrationId\<close> the loop overwrites) and the four arrays \<open>tagIds\<close>, \<open>companyIds\<close>,
  \<open>emails\<close>, \<open>phones\<close>.
\<close>

type_synonym merging = "customerInput \<times> string list \<times> string list \<times> string list \<times> string list"

fun mergeLoop :: "string list \<Rightarrow> merging \<Rightarrow> merging promise" where
  "mergeLoop [] acc = resolve acc"
| "mergeLoop (customerId # rest) (customerFields, tags, comps, mails, fones) =
     await (Customers_findOne [Id_eq customerId]) (\<lambda>customerObj.
       case customerObj of
         None \<Rightarrow> mergeLoop rest (customerFields, tags, comps, mails, fones)
       | Some obj \<Rightarrow>
           await (Customers_remove [Id_eq customerId]) (\<lambda>_.
             mergeLoop rest
               (customerFields\<lparr>integrationId := integrationId obj\<rparr>,
                tags @ orEmpty (tagIds obj),
                comps @ orEmpty (companyIds obj),
                mails @ orEmpty (emails obj),
                fones @ orEmpty (phones obj))))"

definition mergeCustomers :: "env \<Rightarrow> string list \<Rightarrow> customerInput \<Rightarrow> customer promise" where
  "mergeCustomers env customerIds customerFields =
     await (checkDuplication customerFields (Some (Many customerIds))) (\<lambda>_.
     await (mergeLoop customerIds
              (customerFields, [], [],
               (if truthy (primaryEmail customerFields) then [the (primaryEmail customerFields)] else []),
               (if truthy (primaryPhone customerFields) then [the (primaryPhone customerFields)] else [])))
       (\<lambda>(customerFields1, tags, comps, mails, fones).
     await (createCustomer env
              (customerFields1\<lparr>tagIds := Some (arrayFromSet tags),
                 companyIds := Some (arrayFromSet comps),
                 emails := Some (arrayFromSet mails),
                 phones := Some (arrayFromSet fones)\<rparr>) None) (\<lambda>customer.
     await (invoke env (ChangeCustomer ActivityLogs (customer_id customer) customerIds)) (\<lambda>_.
     await (invoke env (ChangeCustomer Conversations (customer_id customer) customerIds)) (\<lambda>_.
     await (invoke env (ChangeCustomer EngageMessages (customer_id customer) customerIds)) (\<lambda>_.
     await (invoke env (ChangeCustomer InternalNotes (customer_id customer) customerIds)) (\<lambda>_.
     resolve customer)))))))"

section \<open>What the operations are specified to do\<close>

subsection \<open>The duplication checker\<close>

text \<open>
  A record is excluded when its identifier is the single identifier given, or is in the
  list given. An empty string given as the single identifier excludes nothing.
\<close>

definition notExcluded :: "idsToExclude option \<Rightarrow> customer \<Rightarrow> bool" where
  "notExcluded ex c =
     (case ex of
        None \<Rightarrow> True
      | Some (Single i) \<Rightarrow> i = [] \<or> customer_id c \<noteq> i
      | Some (Many ids) \<Rightarrow> customer_id c \<notin> set ids)"

text \<open>
  The four identity checks of a candidate against one existing record. A primary email
  or phone that is the empty string counts as not given.
\<close>

definition twitterCollides :: "customerInput \<Rightarrow> customer \<Rightarrow> bool" where
  "twitterCollides f c =
     (case twitterData f of
        None \<Rightarrow> False
      | Some td \<Rightarrow> map_option twitterData_id (twitterData c) = Some (twitterData_id td))"

definition facebookCollides :: "customerInput \<Rightarrow> customer \<Rightarrow> bool" where
  "facebookCollides f c =
     (case facebookData f of
        None \<Rightarrow> False
      | Some fd \<Rightarrow> map_option facebookData_id (facebookData c) = Some (facebookData_id fd))"

definition emailCollides :: "customerInput \<Rightarrow> customer \<Rightarrow> bool" where
  "emailCollides f c =
     (case primaryEmail f of
        None \<Rightarrow> False
      | Some e \<Rightarrow> e \<noteq> [] \<and> (primaryEmail c = Some e \<or> e \<in> set (orEmpty (emails c))))"

definition phoneCollides :: "customerInput \<Rightarrow> customer \<Rightarrow> bool" where
  "phoneCollides f c =
     (case primaryPhone f of
        None \<Rightarrow> False
      | Some p \<Rightarrow> p \<noteq> [] \<and> (primaryPhone c = Some p \<or> p \<in> set (orEmpty (phones c))))"

text \<open>The message of the first check, in the order twitter, facebook, email, phone, that
  some record that is not excluded fails; \<open>None\<close> when there is none.\<close>

definition duplicatedField :: "customerInput \<Rightarrow> idsToExclude option \<Rightarrow> customer list \<Rightarrow> string option" where
  "duplicatedField f ex cs =
     (let others = filter (notExcluded ex) cs in
      if \<exists>c \<in> set others. twitterCollides f c then Some ''Duplicated twitter''
      else if \<exists>c \<in> set others. facebookCollides f c then Some ''Duplicated facebook''
      else if \<exists>c \<in> set others. emailCollides f c then Some ''Duplicated email''
      else if \<exists>c \<in> set others. phoneCollides f c then Some ''Duplicated phone''
      else None)"

text \<open>The four messages of the checker.\<close>

definition duplicateMessages :: "string set" where
  "duplicateMessages =
     {''Duplicated twitter'', ''Duplicated facebook'', ''Duplicated email'', ''Duplicated phone''}"

text \<open>A query hits when some record of the collection matches it.\<close>

definition hit :: "customer list \<Rightarrow> query \<Rightarrow> bool" where
  "hit cs q = (\<exists>c \<in> set cs. matches q c)"

text \<open>
  The queries \<open>qs\<close> of a run that ended with \<open>r\<close> stop at the first hit: a run that
  passes has no hit, a run that fails made its last query the only one that hits.
\<close>

definition stopsAtFirstHit :: "customer list \<Rightarrow> query list \<Rightarrow> string option \<Rightarrow> bool" where
  "stopsAtFirstHit cs qs r =
     (case r of
        None \<Rightarrow> \<forall>q \<in> set qs. \<not> hit cs q
      | Some msg \<Rightarrow> qs \<noteq> [] \<and> hit cs (last qs) \<and> (\<forall>q \<in> set (butlast qs). \<not> hit cs q))"

text \<open>
  \<open>guards m g\<close>: the computation \<open>m\<close> only queries the collection, stops at the first
  query that hits, and fails with the message \<open>g\<close> gives for the collection.
\<close>

definition guards :: "unit promise \<Rightarrow> (customer list \<Rightarrow> string option) \<Rightarrow> bool" where
  "guards m g =
     (\<forall>w. fst (m w) = (case g (customers w) of Some msg \<Rightarrow> Inl (Error msg) | None \<Rightarrow> Inr ())
        \<and> customers (snd (m w)) = customers w
        \<and> (\<exists>qs. trace (snd (m w)) = trace w @ map CustomersFind qs
              \<and> stopsAtFirstHit (customers w) qs (g (customers w))))"

subsection \<open>Creation\<close>

text \<open>The owner of a created record: the candidate's own when it is given and not the
  empty string, the acting user's identifier otherwise, when there is an acting user.\<close>

definition ownerDefaulted :: "customerInput \<Rightarrow> user option \<Rightarrow> string option" where
  "ownerDefaulted doc usr =
     (if truthy (ownerId doc) then ownerId doc
      else case usr of Some u \<Rightarrow> Some (user_id u) | None \<Rightarrow> ownerId doc)"

subsection \<open>Removal\<close>

text \<open>The four cascade calls of a removal, in the order they are made.\<close>

definition cascades :: "string \<Rightarrow> call list" where
  "cascades customerId =
     [RemoveCustomerActivityLog customerId, RemoveCustomerConversations customerId,
      RemoveCustomerEngages customerId, RemoveCustomerInternalNotes customerId]"

subsection \<open>Merging\<close>

text \<open>
  The records a merge folds in, in the order it meets them: for each input identifier in
  turn, the record it resolves to in what is left of the collection, if any; that record is
  then gone for the identifiers that follow.
\<close>

fun absorbed :: "string list \<Rightarrow> customer list \<Rightarrow> customer list" where
  "absorbed [] cs = []"
| "absorbed (i # ids) cs =
     (case find (\<lambda>c. customer_id c = i) cs of
        None \<Rightarrow> absorbed ids cs
      | Some obj \<Rightarrow> obj # absorbed ids (filter (\<lambda>c. customer_id c \<noteq> i) cs))"

text \<open>What one found record adds to the state of the merge.\<close>

fun absorb :: "merging \<Rightarrow> customer \<Rightarrow> merging" where
  "absorb (customerFields, tags, comps, mails, fones) obj =
     (customerFields\<lparr>integrationId := integrationId obj\<rparr>,
      tags @ orEmpty (tagIds obj),
      comps @ orEmpty (companyIds obj),
      mails @ orEmpty (emails obj),
      fones @ orEmpty (phones obj))"

text \<open>The events of the fold: a lookup per identifier, and a removal per record found.\<close>

fun loopEvents :: "string list \<Rightarrow> customer list \<Rightarrow> event list" where
  "loopEvents [] cs = []"
| "loopEvents (i # ids) cs =
     CustomersFindOne [Id_eq i] #
     (case find (\<lambda>c. customer_id c = i) cs of
        None \<Rightarrow> loopEvents ids cs
      | Some obj \<Rightarrow> CustomersRemove [Id_eq i] # loopEvents ids (filter (\<lambda>c. customer_id c \<noteq> i) cs))"

text \<open>The seed of the email and phone accumulators: the supplied primary value, if given
  and not empty.\<close>

definition seeded :: "string option \<Rightarrow> string list" where
  "seeded s = (case s of None \<Rightarrow> [] | Some x \<Rightarrow> if x = [] then [] else [x])"

text \<open>
  The fields the survivor is created from: the supplied ones, with the integration reference
  of the last record found (the supplied one when none is found) and the four accumulators
  without duplicates.
\<close>

definition mergedFields :: "string list \<Rightarrow> customerInput \<Rightarrow> customer list \<Rightarrow> customerInput" where
  "mergedFields ids f cs =
     (let found = absorbed ids cs in
      f\<lparr>integrationId := (if found = [] then integrationId f else integrationId (last found)),
        tagIds := Some (arrayFromSet (concat (map (\<lambda>c. orEmpty (tagIds c)) found))),
        companyIds := Some (arrayFromSet (concat (map (\<lambda>c. orEmpty (companyIds c)) found))),
        emails := Some (arrayFromSet (seeded (primaryEmail f) @ concat (map (\<lambda>c. orEmpty (emails c)) found))),
        phones := Some (arrayFromSet (seeded (primaryPhone f) @ concat (map (\<lambda>c. orEmpty (phones c)) found)))\<rparr>)"

text \<open>The record a merge creates, given the cleaned custom-field payload.\<close>

definition survivor :: "env \<Rightarrow> string list \<Rightarrow> customerInput \<Rightarrow> customFields \<Rightarrow> customer list \<Rightarrow> customer" where
  "survivor env ids f cleaned cs =
     newDocument env ((mergedFields ids f cs)\<lparr>customFieldsData := Some cleaned\<rparr>)"

text \<open>The four calls that repoint the sibling models to the survivor, in order.\<close>

definition repoints :: "string \<Rightarrow> string list \<Rightarrow> call list" where
  "repoints new ids =
     [ChangeCustomer ActivityLogs new ids, ChangeCustomer Conversations new ids,
      ChangeCustomer EngageMessages new ids, ChangeCustomer InternalNotes new ids]"

text \<open>Of calls made one after the other until one rejects: the error of the first that
  rejects, and the calls that are made.\<close>

fun firstReject :: "env \<Rightarrow> call list \<Rightarrow> error option" where
  "firstReject env [] = None"
| "firstReject env (c # cs) =
     (case rejects env c of Some e \<Rightarrow> Some e | None \<Rightarrow> firstReject env cs)"

fun madeCalls :: "env \<Rightarrow> call list \<Rightarrow> call list" where
  "madeCalls env [] = []"
| "madeCalls env (c # cs) =
     c # (case rejects env c of Some e \<Rightarrow> [] | None \<Rightarrow> madeCalls env cs)"

subsection \<open>Update\<close>

text \<open>
  The record holds the identity value of the candidate that a message of the checker names:
  the same twitter id, the same facebook id, the candidate's primary email as its own
  primary email or among its secondary emails, or likewise the candidate's primary phone.
\<close>

definition collision :: "string \<Rightarrow> customerInput \<Rightarrow> customer \<Rightarrow> bool" where
  "collision msg doc c =
     (if msg = ''Duplicated twitter'' then twitterCollides doc c
      else if msg = ''Duplicated facebook'' then facebookCollides doc c
      else if msg = ''Duplicated email'' then
        (case primaryEmail doc of
           None \<Rightarrow> False
         | Some e \<Rightarrow> primaryEmail c = Some e \<or> e \<in> set (orEmpty (emails c)))
      else if msg = ''Duplicated phone'' then
        (case primaryPhone doc of
           None \<Rightarrow> False
         | Some p \<Rightarrow> primaryPhone c = Some p \<or> p \<in> set (orEmpty (phones c)))
      else False)"

text \<open>
  What an update returns once the checker has passed: the error of \<open>Fields.cleanMulti\<close>
  when a custom-field payload is given and cleaning it fails, and otherwise the record with
  the given identifier after \<open>$set\<close>, if there is one.
\<close>

definition updated :: "env \<Rightarrow> string \<Rightarrow> customerInput \<Rightarrow> customer list \<Rightarrow> error + customer option" where
  "updated env i doc cs =
     (case customFieldsData doc of
        None \<Rightarrow> Inr (map_option (setFields doc (now env)) (find (\<lambda>c. customer_id c = i) cs))
      | Some d \<Rightarrow>
          (case cleanMulti env d of
             Inl e \<Rightarrow> Inl e
           | Inr cleaned \<Rightarrow>
               Inr (map_option (setFields (doc\<lparr>customFieldsData := Some cleaned\<rparr>) (now env))
                      (find (\<lambda>c. customer_id c = i) cs))))"

section \<open>Example data\<close>

text \<open>Two customers, a collection that holds them, and collaborators that never fail.\<close>

definition noFields :: customerInput where
  "noFields =
     \<lparr>primaryEmail = None, emails = None, primaryPhone = None, phones = None,
      ownerId = None, integrationId = None, tagIds = None, companyIds = None,
      customFieldsData = None, twitterData = None, facebookData = None, otherFields = []\<rparr>"

definition alice :: customer where
  "alice =
     \<lparr>primaryEmail = Some ''alice@erxes.io'', emails = Some [''al@erxes.io''],
      primaryPhone = Some ''111'', phones = None,
      ownerId = None, integrationId = Some ''int-a'', tagIds = Some [''t1''],
      companyIds = Some [''c1''], customFieldsData = None,
      twitterData = Some (TwitterData 7), facebookData = Some (FacebookData ''fb-a''),
      otherFields = [], customer_id = ''A'', createdAt = 1, modifiedAt = 1\<rparr>"

definition bob :: customer where
  "bob =
     \<lparr>primaryEmail = Some ''bob@erxes.io'', emails = Some [''b@erxes.io''],
      primaryPhone = None, phones = Some [''222''],
      ownerId = None, integrationId = Some ''int-b'', tagIds = Some [''t1'', ''t2''],
      companyIds = None, customFieldsData = None,
      twitterData = None, facebookData = None,
      otherFields = [], customer_id = ''B'', createdAt = 2, modifiedAt = 2\<rparr>"

definition store :: world where
  "store = \<lparr>customers = [alice, bob], trace = []\<rparr>"

definition quiet :: env where
  "quiet =
     \<lparr>genId = ''N'', now = 9, cleanMulti = Inr,
      createCompany = (\<lambda>name website.
        Inr \<lparr>company_id = ''K'', company_name = name, company_website = website\<rparr>),
      rejects = (\<lambda>c. None)\<rparr>"

text \<open>Collaborators of which \<open>EngageMessages\<close> rejects the removal for customer \<open>A\<close>.\<close>

definition failsAtThird :: env where
  "failsAtThird = quiet\<lparr>rejects := (\<lambda>c. if c = RemoveCustomerEngages ''A'' then Some (Error ''engages down'') else None)\<rparr>"

text \<open>A customer who holds the primary email of \<open>alice\<close> among her secondary emails, and
  one whose primary email is the empty string.\<close>

definition carol :: customer where
  "carol =
     \<lparr>primaryEmail = None, emails = Some [''alice@erxes.io''],
      primaryPhone = None, phones = None,
      ownerId = None, integrationId = None, tagIds = None,
      companyIds = None, customFieldsData = None,
      twitterData = None, facebookData = None,
      otherFields = [], customer_id = ''C'', createdAt = 3, modifiedAt = 3\<rparr>"

definition blank :: customer where
  "blank =
     \<lparr>primaryEmail = Some [], emails = None,
      primaryPhone = None, phones = None,
      ownerId = None, integrationId = None, tagIds = None,
      companyIds = None, customFieldsData = None,
      twitterData = None, facebookData = None,
      otherFields = [], customer_id = ''D'', createdAt = 4, modifiedAt = 4\<rparr>"

section \<open>Basic facts\<close>

lemma customers_logged [simp]: "customers (logged ev w) = customers w"
  by (simp add: logged_def)

lemma trace_logged [simp]: "trace (logged ev w) = trace w @ [ev]"
  by (simp add: logged_def)

lemma await_resolve [simp]: "await (resolve x) f w = f x w"
  by (simp add: await_def resolve_def)

lemma await_Inr: "m w = (Inr x, w1) \<Longrightarrow> await m f w = f x w1"
  by (simp add: await_def)

lemma await_Inl: "m w = (Inl e, w1) \<Longrightarrow> await m f w = (Inl e, w1)"
  by (simp add: await_def)

lemma matches_append [simp]: "matches (q @ r) c = (matches q c \<and> matches r c)"
  by (simp add: matches_def)

lemma matches_single [simp]: "matches [k] c = satisfies c k"
  by (simp add: matches_def)

lemma matches_excludeQuery [simp]: "matches (excludeQuery ex) c = notExcluded ex c"
  by (auto simp: excludeQuery_def notExcluded_def matches_def
      split: option.splits idsToExclude.splits)

section \<open>The duplication checker\<close>

lemma throwIfFound_eq:
  "throwIfFound q msg w =
     (if hit (customers w) q then Inl (Error msg) else Inr (), logged (CustomersFind q) w)"
  by (simp add: throwIfFound_def await_def Customers_find_def throw_def resolve_def
      filter_empty_conv hit_def)

lemma guardsI:
  assumes "\<And>w. fst (m w) = (case g (customers w) of Some msg \<Rightarrow> Inl (Error msg) | None \<Rightarrow> Inr ())"
    and "\<And>w. customers (snd (m w)) = customers w"
    and "\<And>w. trace (snd (m w)) = trace w @ map CustomersFind (qs w)"
    and "\<And>w. stopsAtFirstHit (customers w) (qs w) (g (customers w))"
  shows "guards m g"
  unfolding guards_def using assms by blast

lemma guardsE:
  assumes "guards m g"
  obtains qs where
    "fst (m w) = (case g (customers w) of Some msg \<Rightarrow> Inl (Error msg) | None \<Rightarrow> Inr ())"
    "customers (snd (m w)) = customers w"
    "trace (snd (m w)) = trace w @ map CustomersFind qs"
    "stopsAtFirstHit (customers w) qs (g (customers w))"
  using assms unfolding guards_def by blast

lemma guards_resolve: "guards (resolve ()) (\<lambda>cs. None)"
  by (rule guardsI [where qs = "\<lambda>w. []"]) (simp_all add: resolve_def stopsAtFirstHit_def)

lemma guards_throwIfFound:
  "guards (throwIfFound q msg) (\<lambda>cs. if hit cs q then Some msg else None)"
  by (rule guardsI [where qs = "\<lambda>w. [q]"]) (simp_all add: throwIfFound_eq stopsAtFirstHit_def)

lemma stopsAtFirstHit_append:
  assumes "stopsAtFirstHit cs qs None" and "stopsAtFirstHit cs qs' r"
  shows "stopsAtFirstHit cs (qs @ qs') r"
proof (cases r)
  case None
  with assms show ?thesis by (auto simp: stopsAtFirstHit_def)
next
  case (Some msg)
  with assms have "qs' \<noteq> []" by (simp add: stopsAtFirstHit_def)
  with assms Some show ?thesis
    by (auto simp: stopsAtFirstHit_def butlast_append)
qed


lemma guards_await:
  assumes "guards m g" and "guards n h"
  shows "guards (await m (\<lambda>_. n)) (\<lambda>cs. case g cs of Some msg \<Rightarrow> Some msg | None \<Rightarrow> h cs)"
  unfolding guards_def
proof (intro allI)
  fix w :: world
  let ?cs = "customers w"
  let ?a = "await m (\<lambda>_. n) w"
  let ?gh = "case g ?cs of Some msg \<Rightarrow> Some msg | None \<Rightarrow> h ?cs"
  obtain r w1 where mw: "m w = (r, w1)" by (cases "m w")
  from guardsE [OF assms(1), of w] mw obtain qs where
    r: "r = (case g ?cs of Some msg \<Rightarrow> Inl (Error msg) | None \<Rightarrow> Inr ())"
    and c1: "customers w1 = ?cs"
    and t1: "trace w1 = trace w @ map CustomersFind qs"
    and s1: "stopsAtFirstHit ?cs qs (g ?cs)"
    by auto
  have "fst ?a = (case ?gh of Some msg \<Rightarrow> Inl (Error msg) | None \<Rightarrow> Inr ())
      \<and> customers (snd ?a) = ?cs
      \<and> (\<exists>qs. trace (snd ?a) = trace w @ map CustomersFind qs \<and> stopsAtFirstHit ?cs qs ?gh)"
  proof (cases "g ?cs")
    case (Some msg)
    with r mw have "?a = (Inl (Error msg), w1)"
      by (simp add: await_def)
    with Some c1 t1 s1 show ?thesis by auto
  next
    case None
    with r mw have aw: "?a = n w1"
      by (simp add: await_def)
    from guardsE [OF assms(2), of w1] obtain qs' where
      "fst (n w1) = (case h (customers w1) of Some msg \<Rightarrow> Inl (Error msg) | None \<Rightarrow> Inr ())"
      "customers (snd (n w1)) = customers w1"
      "trace (snd (n w1)) = trace w1 @ map CustomersFind qs'"
      "stopsAtFirstHit (customers w1) qs' (h (customers w1))"
      by blast
    then have "fst (n w1) = (case h ?cs of Some msg \<Rightarrow> Inl (Error msg) | None \<Rightarrow> Inr ())"
      "customers (snd (n w1)) = ?cs"
      "trace (snd (n w1)) = trace w @ map CustomersFind (qs @ qs')"
      "stopsAtFirstHit ?cs (qs @ qs') (h ?cs)"
      using c1 t1 s1 None by (simp_all add: stopsAtFirstHit_append)
    then show ?thesis
      unfolding aw None option.case by (intro conjI exI [of _ "qs @ qs'"])
  qed
  then show "fst ?a = (case ?gh of Some msg \<Rightarrow> Inl (Error msg) | None \<Rightarrow> Inr ())
      \<and> customers (snd ?a) = ?cs
      \<and> (\<exists>qs. trace (snd ?a) = trace w @ map CustomersFind qs \<and> stopsAtFirstHit ?cs qs ?gh)" .
qed

lemma guards_cong: "guards m g \<Longrightarrow> g = h \<Longrightarrow> guards m h"
  by simp

lemma hit_excluding:
  "hit cs (excludeQuery ex @ [k]) = (\<exists>c \<in> set (filter (notExcluded ex) cs). satisfies c k)"
  by (auto simp: hit_def)


lemma twitter_guard:
  "guards (case twitterData f of
             Some td \<Rightarrow> throwIfFound (excludeQuery ex @ [TwitterDataId (twitterData_id td)]) ''Duplicated twitter''
           | None \<Rightarrow> resolve ())
     (\<lambda>cs. if \<exists>c \<in> set (filter (notExcluded ex) cs). twitterCollides f c
           then Some ''Duplicated twitter'' else None)"
proof (cases "twitterData f")
  case None
  then have "twitterCollides f = (\<lambda>c. False)"
    by (simp add: twitterCollides_def fun_eq_iff)
  with None guards_resolve show ?thesis by simp
next
  case (Some td)
  have "twitterCollides f c = satisfies c (TwitterDataId (twitterData_id td))" for c
    by (simp add: Some twitterCollides_def split: option.splits)
  then have "(\<lambda>cs. if hit cs (excludeQuery ex @ [TwitterDataId (twitterData_id td)])
                    then Some ''Duplicated twitter'' else None)
      = (\<lambda>cs. if \<exists>c \<in> set (filter (notExcluded ex) cs). twitterCollides f c
           then Some ''Duplicated twitter'' else None)"
    by (simp only: hit_excluding)
  from guards_cong [OF guards_throwIfFound this] show ?thesis
    by (simp only: Some option.case)
qed

lemma facebook_guard:
  "guards (case facebookData f of
             Some fd \<Rightarrow> throwIfFound (excludeQuery ex @ [FacebookDataId (facebookData_id fd)]) ''Duplicated facebook''
           | None \<Rightarrow> resolve ())
     (\<lambda>cs. if \<exists>c \<in> set (filter (notExcluded ex) cs). facebookCollides f c
           then Some ''Duplicated facebook'' else None)"
proof (cases "facebookData f")
  case None
  then have "facebookCollides f = (\<lambda>c. False)"
    by (simp add: facebookCollides_def fun_eq_iff)
  with None guards_resolve show ?thesis by simp
next
  case (Some fd)
  have "facebookCollides f c = satisfies c (FacebookDataId (facebookData_id fd))" for c
    by (simp add: Some facebookCollides_def split: option.splits)
  then have "(\<lambda>cs. if hit cs (excludeQuery ex @ [FacebookDataId (facebookData_id fd)])
                    then Some ''Duplicated facebook'' else None)
      = (\<lambda>cs. if \<exists>c \<in> set (filter (notExcluded ex) cs). facebookCollides f c
           then Some ''Duplicated facebook'' else None)"
    by (simp only: hit_excluding)
  from guards_cong [OF guards_throwIfFound this] show ?thesis
    by (simp only: Some option.case)
qed

lemma email_guard:
  "guards (if truthy (primaryEmail f) then
             await (throwIfFound (excludeQuery ex @ [PrimaryEmail (the (primaryEmail f))]) ''Duplicated email'') (\<lambda>_.
             throwIfFound (excludeQuery ex @ [Emails_in [the (primaryEmail f)]]) ''Duplicated email'')
           else resolve ())
     (\<lambda>cs. if \<exists>c \<in> set (filter (notExcluded ex) cs). emailCollides f c
           then Some ''Duplicated email'' else None)"
proof (cases "truthy (primaryEmail f)")
  case False
  then have "emailCollides f = (\<lambda>c. False)"
    by (auto simp: emailCollides_def truthy_def fun_eq_iff split: option.splits)
  with False guards_resolve show ?thesis by simp
next
  case True
  then obtain e where e: "primaryEmail f = Some e" "e \<noteq> []"
    by (auto simp: truthy_def split: option.splits)
  have "emailCollides f c = (satisfies c (PrimaryEmail e) \<or> satisfies c (Emails_in [e]))" for c
    by (auto simp: e emailCollides_def orEmpty_def split: option.splits)
  then have "(\<lambda>cs. case (if hit cs (excludeQuery ex @ [PrimaryEmail e]) then Some ''Duplicated email'' else None) of
                     Some msg \<Rightarrow> Some msg
                   | None \<Rightarrow> if hit cs (excludeQuery ex @ [Emails_in [e]]) then Some ''Duplicated email'' else None)
      = (\<lambda>cs. if \<exists>c \<in> set (filter (notExcluded ex) cs). emailCollides f c
           then Some ''Duplicated email'' else None)"
    by (auto simp: hit_excluding fun_eq_iff)
  from guards_cong [OF guards_await [OF guards_throwIfFound guards_throwIfFound] this] True
  show ?thesis
    by (simp only: e option.sel if_True)
qed

lemma phone_guard:
  "guards (if truthy (primaryPhone f) then
             await (throwIfFound (excludeQuery ex @ [PrimaryPhone (the (primaryPhone f))]) ''Duplicated phone'') (\<lambda>_.
             throwIfFound (excludeQuery ex @ [Phones_in [the (primaryPhone f)]]) ''Duplicated phone'')
           else resolve ())
     (\<lambda>cs. if \<exists>c \<in> set (filter (notExcluded ex) cs). phoneCollides f c
           then Some ''Duplicated phone'' else None)"
proof (cases "truthy (primaryPhone f)")
  case False
  then have "phoneCollides f = (\<lambda>c. False)"
    by (auto simp: phoneCollides_def truthy_def fun_eq_iff split: option.splits)
  with False guards_resolve show ?thesis by simp
next
  case True
  then obtain p where p: "primaryPhone f = Some p" "p \<noteq> []"
    by (auto simp: truthy_def split: option.splits)
  have "phoneCollides f c = (satisfies c (PrimaryPhone p) \<or> satisfies c (Phones_in [p]))" for c
    by (auto simp: p phoneCollides_def orEmpty_def split: option.splits)
  then have "(\<lambda>cs. case (if hit cs (excludeQuery ex @ [PrimaryPhone p]) then Some ''Duplicated phone'' else None) of
                     Some msg \<Rightarrow> Some msg
                   | None \<Rightarrow> if hit cs (excludeQuery ex @ [Phones_in [p]]) then Some ''Duplicated phone'' else None)
      = (\<lambda>cs. if \<exists>c \<in> set (filter (notExcluded ex) cs). phoneCollides f c
           then Some ''Duplicated phone'' else None)"
    by (auto simp: hit_excluding fun_eq_iff)
  from guards_cong [OF guards_await [OF guards_throwIfFound guards_throwIfFound] this] True
  show ?thesis
    by (simp only: p option.sel if_True)
qed

lemma guards_checkDuplication: "guards (checkDuplication f ex) (duplicatedField f ex)"
proof -
  have "(\<lambda>cs. case (if \<exists>c \<in> set (filter (notExcluded ex) cs). twitterCollides f c
                      then Some ''Duplicated twitter'' else None) of
                 Some msg \<Rightarrow> Some msg
               | None \<Rightarrow>
                   (case (if \<exists>c \<in> set (filter (notExcluded ex) cs). facebookCollides f c
                          then Some ''Duplicated facebook'' else None) of
                      Some msg \<Rightarrow> Some msg
                    | None \<Rightarrow>
                        (case (if \<exists>c \<in> set (filter (notExcluded ex) cs). emailCollides f c
                               then Some ''Duplicated email'' else None) of
                           Some msg \<Rightarrow> Some msg
                         | None \<Rightarrow>
                             (if \<exists>c \<in> set (filter (notExcluded ex) cs). phoneCollides f c
                              then Some ''Duplicated phone'' else None))))
      = duplicatedField f ex"
    unfolding duplicatedField_def Let_def fun_eq_iff
    by (intro allI) (simp only: if_distrib [of "case_option _ _"] option.case cong: if_cong)
  from guards_cong [OF guards_await [OF twitter_guard guards_await [OF facebook_guard
        guards_await [OF email_guard phone_guard]]] this]
  show ?thesis
    unfolding checkDuplication_def Let_def .
qed

lemma checkDuplication_fst:
  "fst (checkDuplication f ex w) =
     (case duplicatedField f ex (customers w) of Some msg \<Rightarrow> Inl (Error msg) | None \<Rightarrow> Inr ())"
  using guards_checkDuplication [of f ex] unfolding guards_def by blast

lemma checkDuplication_customers:
  "customers (snd (checkDuplication f ex w)) = customers w"
  using guards_checkDuplication [of f ex] unfolding guards_def by blast

lemma duplicatedField_example:
  "duplicatedField (noFields\<lparr>facebookData := Some (FacebookData ''fb-a''),
       primaryEmail := Some ''b@erxes.io'', primaryPhone := Some ''111''\<rparr>) None (customers store)
   = Some ''Duplicated facebook''"
  by (simp add: duplicatedField_def noFields_def store_def alice_def bob_def notExcluded_def
      twitterCollides_def facebookCollides_def)

text \<open>
  C3. For every candidate, exclusion and collection, the checker fails with the message of
  the first of the four checks (twitter, facebook, email, phone, in this order) that some
  record that is not excluded fails, and passes when there is none. The email and the phone
  check apply to a primary value that is given and is not the empty string, and a single
  excluded identifier excludes a record when it is not the empty string. The checker only
  queries the collection: the records are the same afterwards, every event it leaves is a
  \<open>find\<close>, and it makes no query after the first one that hits.
\<close>

theorem checkDuplication_short_circuit:
  "fst (checkDuplication f ex w) =
     (case duplicatedField f ex (customers w) of Some msg \<Rightarrow> Inl (Error msg) | None \<Rightarrow> Inr ())
   \<and> customers (snd (checkDuplication f ex w)) = customers w
   \<and> (\<exists>qs. trace (snd (checkDuplication f ex w)) = trace w @ map CustomersFind qs
         \<and> stopsAtFirstHit (customers w) qs (duplicatedField f ex (customers w)))"
  using guards_checkDuplication [of f ex] unfolding guards_def by blast

theorem checkDuplication_short_circuit_witness:
  "fst (checkDuplication (noFields\<lparr>facebookData := Some (FacebookData ''fb-a''),
       primaryEmail := Some ''b@erxes.io'', primaryPhone := Some ''111''\<rparr>) None store)
     = Inl (Error ''Duplicated facebook'')
   \<and> customers (snd (checkDuplication (noFields\<lparr>facebookData := Some (FacebookData ''fb-a''),
       primaryEmail := Some ''b@erxes.io'', primaryPhone := Some ''111''\<rparr>) None store)) = [alice, bob]"
  using checkDuplication_short_circuit [of "noFields\<lparr>facebookData := Some (FacebookData ''fb-a''),
       primaryEmail := Some ''b@erxes.io'', primaryPhone := Some ''111''\<rparr>" None store]
  by (simp add: duplicatedField_example) (simp add: store_def)

text \<open>
  A candidate whose primary email is the empty string passes the checker although a record
  of the collection has the same primary email: the email check is skipped for it.
\<close>

theorem checkDuplication_empty_email_counterexample:
  "primaryEmail blank = primaryEmail (noFields\<lparr>primaryEmail := Some []\<rparr>)
   \<and> fst (checkDuplication (noFields\<lparr>primaryEmail := Some []\<rparr>) None
          \<lparr>customers = [blank], trace = []\<rparr>) = Inr ()"
  by (simp add: checkDuplication_fst duplicatedField_def noFields_def blank_def notExcluded_def
      twitterCollides_def facebookCollides_def emailCollides_def phoneCollides_def)

section \<open>Creation\<close>

lemma checkDuplication_cases:
  obtains (dup) msg w1 where "duplicatedField f ex (customers w) = Some msg"
      "checkDuplication f ex w = (Inl (Error msg), w1)" "customers w1 = customers w"
  | (ok) w1 where "duplicatedField f ex (customers w) = None"
      "checkDuplication f ex w = (Inr (), w1)" "customers w1 = customers w"
proof -
  from guards_checkDuplication [of f ex] have
    r: "fst (checkDuplication f ex w) =
          (case duplicatedField f ex (customers w) of Some msg \<Rightarrow> Inl (Error msg) | None \<Rightarrow> Inr ())"
    and c: "customers (snd (checkDuplication f ex w)) = customers w"
    unfolding guards_def by blast+
  show ?thesis
  proof (cases "duplicatedField f ex (customers w)")
    case None
    with r c ok [of "snd (checkDuplication f ex w)"] show ?thesis
      by (metis (no_types, lifting) option.simps(4) prod.collapse)
  next
    case (Some msg)
    with r c dup [of msg "snd (checkDuplication f ex w)"] show ?thesis
      by (metis (no_types, lifting) option.simps(5) prod.collapse)
  qed
qed

lemma afterCheck:
  assumes "checkDuplication doc None w = (Inr (), w1)"
  shows "createCustomer env doc usr w =
     (case cleanMulti env (orEmpty (customFieldsData doc)) of
        Inl e \<Rightarrow> (Inl e, logged (Called (CleanMulti (orEmpty (customFieldsData doc)))) w1)
      | Inr cleaned \<Rightarrow>
          Customers_create
            (newDocument env (doc\<lparr>ownerId := ownerDefaulted doc usr, customFieldsData := Some cleaned\<rparr>))
            (logged (Called (CleanMulti (orEmpty (customFieldsData doc)))) w1))"
proof -
  let ?doc1 = "if \<not> truthy (ownerId doc) \<and> usr \<noteq> None
               then doc\<lparr>ownerId := Some (user_id (the usr))\<rparr> else doc"
  have d1: "?doc1 = doc\<lparr>ownerId := ownerDefaulted doc usr\<rparr>"
    by (cases usr) (simp_all add: ownerDefaulted_def)
  have "createCustomer env doc usr w =
      await (Fields_cleanMulti env (case customFieldsData ?doc1 of Some d \<Rightarrow> d | None \<Rightarrow> []))
        (\<lambda>cleaned. Customers_create (newDocument env (?doc1\<lparr>customFieldsData := Some cleaned\<rparr>))) w1"
    unfolding createCustomer_def Let_def
    by (rule await_Inr [of "checkDuplication doc None" w "()" w1, OF assms])
  then show ?thesis
    unfolding d1
    by (simp add: await_def Fields_cleanMulti_def orEmpty_def split: sum.splits)
qed

lemma beforeCheck:
  assumes "checkDuplication doc None w = (Inl e, w1)"
  shows "createCustomer env doc usr w = (Inl e, w1)"
  unfolding createCustomer_def
  by (rule await_Inl [of "checkDuplication doc None" w e w1, OF assms])

text \<open>
  C8. A candidate with no twitter data, no facebook data, no primary email and no primary
  phone passes the checker whatever the collection and the exclusion are, and the checker
  makes no query at all: the world is untouched. So \<open>createCustomer\<close> on such a candidate
  can only fail where \<open>Fields.cleanMulti\<close> fails, and returns a record when that succeeds.
\<close>

theorem checkDuplication_without_identity:
  assumes "twitterData f = None" and "facebookData f = None"
    and "\<not> truthy (primaryEmail f)" and "\<not> truthy (primaryPhone f)"
  shows "checkDuplication f ex w = (Inr (), w)
    \<and> (\<forall>e. fst (createCustomer env f usr w) = Inl e
          \<longrightarrow> cleanMulti env (orEmpty (customFieldsData f)) = Inl e)
    \<and> (\<forall>cleaned. cleanMulti env (orEmpty (customFieldsData f)) = Inr cleaned
          \<longrightarrow> (\<exists>c w'. createCustomer env f usr w = (Inr c, w')))"
proof -
  have ck: "checkDuplication f ex w = (Inr (), w)" for ex
    by (simp add: checkDuplication_def Let_def assms) (simp add: resolve_def)
  show ?thesis
    unfolding afterCheck [OF ck [of None]] using ck [of ex]
    by (auto simp: Customers_create_def split: sum.splits)
qed

theorem checkDuplication_without_identity_witness:
  "checkDuplication (noFields\<lparr>tagIds := Some [''t9'']\<rparr>) (Some (Single ''A'')) store = (Inr (), store)
   \<and> (\<exists>c w'. createCustomer quiet (noFields\<lparr>tagIds := Some [''t9'']\<rparr>) None store = (Inr c, w'))"
  using checkDuplication_without_identity [where f = "noFields\<lparr>tagIds := Some [''t9'']\<rparr>"
      and ex = "Some (Single ''A'')" and w = store and env = quiet and usr = None]
  by (simp add: noFields_def truthy_def quiet_def orEmpty_def)

text \<open>
  C7. \<open>createCustomer\<close> runs the checker with no exclusion and fails with its message,
  leaving the records as they were. When the checker passes, the custom-field payload, taken
  as empty when absent, goes through \<open>Fields.cleanMulti\<close>; when that resolves, the record
  that is appended to the collection and returned has the generated identifier, both
  timestamps equal to the time of the operation, the owner defaulted to the acting user when
  the candidate gave none, the cleaned payload, and the candidate's other fields as given.
\<close>

theorem createCustomer_contract:
  "(case duplicatedField doc None (customers w) of
      Some msg \<Rightarrow>
        fst (createCustomer env doc usr w) = Inl (Error msg)
        \<and> customers (snd (createCustomer env doc usr w)) = customers w
    | None \<Rightarrow>
        (case cleanMulti env (orEmpty (customFieldsData doc)) of
           Inl e \<Rightarrow>
             fst (createCustomer env doc usr w) = Inl e
             \<and> customers (snd (createCustomer env doc usr w)) = customers w
         | Inr cleaned \<Rightarrow>
             (let c = newDocument env
                        (doc\<lparr>ownerId := ownerDefaulted doc usr, customFieldsData := Some cleaned\<rparr>)
              in fst (createCustomer env doc usr w) = Inr c
                 \<and> customers (snd (createCustomer env doc usr w)) = customers w @ [c]
                 \<and> trace (snd (createCustomer env doc usr w))
                     = trace (snd (checkDuplication doc None w))
                       @ [Called (CleanMulti (orEmpty (customFieldsData doc))), CustomersCreate c]
                 \<and> createdAt c = now env \<and> modifiedAt c = now env
                 \<and> customer_id c = genId env
                 \<and> ownerId c = ownerDefaulted doc usr
                 \<and> customFieldsData c = Some cleaned
                 \<and> customerInput.truncate c
                     = doc\<lparr>ownerId := ownerDefaulted doc usr, customFieldsData := Some cleaned\<rparr>)))"
proof (cases rule: checkDuplication_cases [of doc None w])
  case (dup msg w1)
  from beforeCheck [OF dup(2)] dup(1,3) show ?thesis by simp
next
  case (ok w1)
  show ?thesis
    unfolding afterCheck [OF ok(2)] ok(1) option.case
    by (simp add: Customers_create_def ok(2,3) newDocument_def Let_def customerInput.truncate_def
        split: sum.splits)
qed

theorem createCustomer_contract_witness:
  "fst (createCustomer quiet (noFields\<lparr>primaryEmail := Some ''carol@erxes.io''\<rparr>)
          (Some \<lparr>user_id = ''U''\<rparr>) store)
     = Inr (newDocument quiet (noFields\<lparr>primaryEmail := Some ''carol@erxes.io'',
              ownerId := Some ''U'', customFieldsData := Some []\<rparr>))
   \<and> fst (createCustomer quiet (noFields\<lparr>primaryEmail := Some ''al@erxes.io''\<rparr>)
          (Some \<lparr>user_id = ''U''\<rparr>) store) = Inl (Error ''Duplicated email'')"
  using createCustomer_contract [where doc = "noFields\<lparr>primaryEmail := Some ''carol@erxes.io''\<rparr>"
      and w = store and env = quiet and usr = "Some \<lparr>user_id = ''U''\<rparr>"]
    createCustomer_contract [where doc = "noFields\<lparr>primaryEmail := Some ''al@erxes.io''\<rparr>"
      and w = store and env = quiet and usr = "Some \<lparr>user_id = ''U''\<rparr>"]
  by (simp add: duplicatedField_def noFields_def store_def alice_def bob_def notExcluded_def
      twitterCollides_def facebookCollides_def emailCollides_def phoneCollides_def orEmpty_def
      quiet_def ownerDefaulted_def truthy_def Let_def)

section \<open>Removal\<close>

lemma invoke_eq:
  "invoke env c w = (case rejects env c of Some e \<Rightarrow> Inl e | None \<Rightarrow> Inr (), logged (Called c) w)"
  by (simp add: invoke_def split: option.splits)

lemma await_invoke:
  "await (invoke env c) f w =
     (case rejects env c of
        Some e \<Rightarrow> (Inl e, logged (Called c) w)
      | None \<Rightarrow> f () (logged (Called c) w))"
  by (simp add: await_def invoke_def split: option.splits)

text \<open>
  C6. \<open>removeCustomer\<close> calls the four cascades one after the other, in the order
  ActivityLogs, Conversations, EngageMessages, InternalNotes, and removes the customer's own
  record after them, when all four resolve. When one rejects, the operation fails with that
  error right after the rejected call: the later cascades are not called and the collection
  of customers is exactly as before, so the customer's record is still there.
\<close>

theorem removeCustomer_cascade:
  "(if \<forall>c \<in> set (cascades x). rejects env c = None
    then removeCustomer env x w =
           (Inr (),
            \<lparr>customers = filter (\<lambda>c. customer_id c \<noteq> x) (customers w),
             trace = trace w @ map Called (cascades x) @ [CustomersRemove [Id_eq x]]\<rparr>)
    else (\<exists>e n. n < 4
            \<and> rejects env (cascades x ! n) = Some e
            \<and> (\<forall>k < n. rejects env (cascades x ! k) = None)
            \<and> removeCustomer env x w =
                 (Inl e, \<lparr>customers = customers w,
                          trace = trace w @ map Called (take (Suc n) (cascades x))\<rparr>)))"
proof -
  let ?r = "rejects env"
  consider (a) e where "?r (RemoveCustomerActivityLog x) = Some e"
    | (b) e where "?r (RemoveCustomerActivityLog x) = None" "?r (RemoveCustomerConversations x) = Some e"
    | (c) e where "?r (RemoveCustomerActivityLog x) = None" "?r (RemoveCustomerConversations x) = None"
        "?r (RemoveCustomerEngages x) = Some e"
    | (d) e where "?r (RemoveCustomerActivityLog x) = None" "?r (RemoveCustomerConversations x) = None"
        "?r (RemoveCustomerEngages x) = None" "?r (RemoveCustomerInternalNotes x) = Some e"
    | (ok) "?r (RemoveCustomerActivityLog x) = None" "?r (RemoveCustomerConversations x) = None"
        "?r (RemoveCustomerEngages x) = None" "?r (RemoveCustomerInternalNotes x) = None"
    by (metis not_Some_eq)
  then show ?thesis
  proof cases
    case a
    then show ?thesis
      by (intro exI [of _ e] exI [of _ 0] | simp add: removeCustomer_def await_invoke cascades_def logged_def)+
  next
    case b
    then show ?thesis
      apply (simp add: cascades_def)
      apply (intro exI [of _ e] exI [of _ 1])
      apply (simp add: removeCustomer_def await_invoke cascades_def logged_def)
      done
  next
    case c
    then show ?thesis
      apply (simp add: cascades_def)
      apply (intro exI [of _ e] exI [of _ 2])
      apply (simp add: removeCustomer_def await_invoke cascades_def logged_def less_Suc_eq numeral_2_eq_2)
      done
  next
    case d
    then show ?thesis
      apply (simp add: cascades_def)
      apply (intro exI [of _ e] exI [of _ 3])
      apply (simp add: removeCustomer_def await_invoke cascades_def logged_def less_Suc_eq numeral_3_eq_3 numeral_2_eq_2)
      done
  next
    case ok
    then show ?thesis
      by (simp add: removeCustomer_def await_invoke cascades_def logged_def Customers_remove_def)
  qed
qed

theorem removeCustomer_cascade_witness:
  "removeCustomer quiet ''A'' store =
     (Inr (), \<lparr>customers = [bob],
               trace = map Called (cascades ''A'') @ [CustomersRemove [Id_eq ''A'']]\<rparr>)
   \<and> fst (removeCustomer failsAtThird ''A'' store) = Inl (Error ''engages down'')
   \<and> customers (snd (removeCustomer failsAtThird ''A'' store)) = [alice, bob]"
proof -
  have q: "\<forall>c \<in> set (cascades ''A''). rejects quiet c = None"
    by (simp add: quiet_def)
  have f: "\<not> (\<forall>c \<in> set (cascades ''A''). rejects failsAtThird c = None)"
    by (simp add: failsAtThird_def cascades_def)
  have e: "rejects failsAtThird c = Some e \<Longrightarrow> e = Error ''engages down''" for c e
    by (simp add: failsAtThird_def split: if_splits)
  from removeCustomer_cascade [of "''A''" quiet store] q
  have "removeCustomer quiet ''A'' store =
     (Inr (), \<lparr>customers = [bob],
               trace = map Called (cascades ''A'') @ [CustomersRemove [Id_eq ''A'']]\<rparr>)"
    by (simp add: store_def alice_def bob_def)
  moreover from removeCustomer_cascade [of "''A''" failsAtThird store] f
  have "fst (removeCustomer failsAtThird ''A'' store) = Inl (Error ''engages down'')
      \<and> customers (snd (removeCustomer failsAtThird ''A'' store)) = [alice, bob]"
    by (auto simp: store_def dest: e)
  ultimately show ?thesis by simp
qed

section \<open>Company linkage\<close>

lemma find_updateFirst:
  assumes "\<And>c. P c \<Longrightarrow> P (f c)"
  shows "find P (updateFirst P f cs) = map_option f (find P cs)"
  using assms by (induction cs) simp_all

lemma filter_updateFirst:
  "filter (\<lambda>c. \<not> P c) (updateFirst P f cs) = filter (\<lambda>c. \<not> P c) cs"
  if "\<And>c. P c \<Longrightarrow> P (f c)"
  using that by (induction cs) simp_all

lemma addToSet_id [simp]: "customer_id (addToSet k c) = customer_id c"
  by (simp add: addToSet_def)

text \<open>
  C10. \<open>addCompany\<close> returns the company that \<open>Companies.createCompany\<close> created, with
  the identifier it was given there, not the customer. On the way it adds the company's
  identifier to the \<open>companyIds\<close> of the customer with the given identifier, as a set
  insertion: the identifiers are the old ones and the new one, and an identifier that is
  already there is not added again. No other customer changes.
\<close>

theorem addCompany_returns_company:
  "(case createCompany env name website of
      Inl e \<Rightarrow>
        fst (addCompany env i name website w) = Inl e
        \<and> customers (snd (addCompany env i name website w)) = customers w
    | Inr company \<Rightarrow>
        fst (addCompany env i name website w) = Inr company
        \<and> find (\<lambda>c. customer_id c = i) (customers (snd (addCompany env i name website w)))
            = map_option (addToSet (company_id company)) (find (\<lambda>c. customer_id c = i) (customers w))
        \<and> filter (\<lambda>c. customer_id c \<noteq> i) (customers (snd (addCompany env i name website w)))
            = filter (\<lambda>c. customer_id c \<noteq> i) (customers w))
   \<and> set (orEmpty (companyIds (addToSet k c))) = insert k (set (orEmpty (companyIds c)))
   \<and> (if k \<in> set (orEmpty (companyIds c))
       then orEmpty (companyIds (addToSet k c)) = orEmpty (companyIds c)
       else orEmpty (companyIds (addToSet k c)) = orEmpty (companyIds c) @ [k])"
proof -
  have m: "matches [Id_eq i] = (\<lambda>c. customer_id c = i)"
    by (simp add: fun_eq_iff)
  have a: "addCompany env i name website w =
      (case createCompany env name website of
         Inl e \<Rightarrow> (Inl e, logged (Called (CreateCompany name website)) w)
       | Inr company \<Rightarrow>
           (Inr company,
            logged (CustomersUpdate [Id_eq i])
              (logged (Called (CreateCompany name website)) w
                 \<lparr>customers := updateFirst (\<lambda>c. customer_id c = i) (addToSet (company_id company))
                     (customers w)\<rparr>)))"
    by (simp add: addCompany_def await_def Companies_createCompany_def Customers_update_def
        resolve_def m split: sum.splits)
  have s: "set (orEmpty (companyIds (addToSet k c))) = insert k (set (orEmpty (companyIds c)))"
    by (auto simp: addToSet_def orEmpty_def split: option.splits)
  have d: "if k \<in> set (orEmpty (companyIds c))
       then orEmpty (companyIds (addToSet k c)) = orEmpty (companyIds c)
       else orEmpty (companyIds (addToSet k c)) = orEmpty (companyIds c) @ [k]"
    by (auto simp: addToSet_def orEmpty_def split: option.splits)
  show ?thesis
    unfolding a using s d
    by (simp add: find_updateFirst filter_updateFirst [of "\<lambda>c. customer_id c = i"]
        split: sum.splits)
qed

theorem addCompany_returns_company_witness:
  "fst (addCompany quiet ''B'' ''Acme'' ''acme.io'' store)
     = Inr \<lparr>company_id = ''K'', company_name = ''Acme'', company_website = ''acme.io''\<rparr>
   \<and> map_option companyIds (find (\<lambda>c. customer_id c = ''B'')
        (customers (snd (addCompany quiet ''B'' ''Acme'' ''acme.io'' store)))) = Some (Some [''K''])
   \<and> orEmpty (companyIds (addToSet ''c1'' alice)) = [''c1'']"
  using addCompany_returns_company [where env = quiet and i = "''B''" and name = "''Acme''"
      and website = "''acme.io''" and w = store and k = "''c1''" and c = alice]
  by (simp add: quiet_def store_def alice_def bob_def addToSet_def orEmpty_def)

section \<open>Merging\<close>

text \<open>
  C5. When the first step of a merge, the checker run on the supplied fields with all input
  identifiers excluded, fails, the merge fails with that same error, which carries one of
  the four duplicate messages; the collection of customers is unchanged and the only events
  are the checker's queries: no record was removed and none was created.
\<close>

theorem mergeCustomers_duplicate_aborts:
  assumes "fst (checkDuplication customerFields (Some (Many customerIds)) w) = Inl e"
  shows "fst (mergeCustomers env customerIds customerFields w) = Inl e
    \<and> customers (snd (mergeCustomers env customerIds customerFields w)) = customers w
    \<and> (\<exists>qs. trace (snd (mergeCustomers env customerIds customerFields w))
              = trace w @ map CustomersFind qs)
    \<and> (\<exists>msg \<in> duplicateMessages. e = Error msg)"
proof -
  let ?ck = "checkDuplication customerFields (Some (Many customerIds))"
  from assms have ck: "?ck w = (Inl e, snd (?ck w))"
    by (metis prod.collapse)
  have m: "mergeCustomers env customerIds customerFields w = (Inl e, snd (?ck w))"
    unfolding mergeCustomers_def
    by (rule await_Inl [of ?ck w e "snd (?ck w)", OF ck])
  from guards_checkDuplication [of customerFields "Some (Many customerIds)"]
  have g: "fst (?ck w) =
        (case duplicatedField customerFields (Some (Many customerIds)) (customers w) of
           Some msg \<Rightarrow> Inl (Error msg) | None \<Rightarrow> Inr ())"
    "customers (snd (?ck w)) = customers w"
    "\<exists>qs. trace (snd (?ck w)) = trace w @ map CustomersFind qs"
    unfolding guards_def by blast+
  from g(1) assms have "\<exists>msg \<in> duplicateMessages. e = Error msg"
    by (auto simp: duplicatedField_def duplicateMessages_def Let_def
        split: option.splits if_splits)
  with g(2,3) show ?thesis
    unfolding m by simp
qed

theorem mergeCustomers_duplicate_aborts_witness:
  "fst (mergeCustomers quiet [''A''] (noFields\<lparr>primaryEmail := Some ''b@erxes.io''\<rparr>) store)
     = Inl (Error ''Duplicated email'')
   \<and> customers (snd (mergeCustomers quiet [''A''] (noFields\<lparr>primaryEmail := Some ''b@erxes.io''\<rparr>) store))
     = [alice, bob]"
proof -
  have "fst (checkDuplication (noFields\<lparr>primaryEmail := Some ''b@erxes.io''\<rparr>) (Some (Many [''A''])) store)
      = Inl (Error ''Duplicated email'')"
    by (simp add: checkDuplication_fst duplicatedField_def noFields_def store_def alice_def
        bob_def notExcluded_def twitterCollides_def facebookCollides_def emailCollides_def
        orEmpty_def)
  from mergeCustomers_duplicate_aborts [OF this, of quiet] show ?thesis
    by (simp add: store_def)
qed

lemma matches_Id_eq: "matches [Id_eq i] = (\<lambda>c. customer_id c = i)"
  by (simp add: fun_eq_iff)

lemma world_eqI: "customers w = cs \<Longrightarrow> trace w = t \<Longrightarrow> w = \<lparr>customers = cs, trace = t\<rparr>"
  for w :: world
  by (cases w) simp

lemma mergeLoop_eq:
  "mergeLoop ids acc w =
     (Inr (foldl absorb acc (absorbed ids (customers w))),
      \<lparr>customers = filter (\<lambda>c. customer_id c \<notin> set ids) (customers w),
       trace = trace w @ loopEvents ids (customers w)\<rparr>)"
proof (induction ids arbitrary: acc w)
  case Nil
  show ?case by (simp add: resolve_def)
next
  case (Cons i ids)
  obtain f t c m p where acc: "acc = (f, t, c, m, p)"
    by (cases acc)
  show ?case
  proof (cases "find (\<lambda>c. customer_id c = i) (customers w)")
    case None
    then have "\<forall>c \<in> set (customers w). customer_id c \<noteq> i"
      by (simp add: find_None_iff)
    then have "filter (\<lambda>c. customer_id c \<noteq> i \<and> customer_id c \<notin> set ids) (customers w)
        = filter (\<lambda>c. customer_id c \<notin> set ids) (customers w)"
      by (auto intro: filter_cong)
    with None show ?thesis
      by (simp add: acc await_def Customers_findOne_def matches_Id_eq Cons.IH)
  next
    case (Some obj)
    have "filter (\<lambda>c. customer_id c \<notin> set ids) (filter (\<lambda>c. customer_id c \<noteq> i) (customers w))
        = filter (\<lambda>c. customer_id c \<noteq> i \<and> customer_id c \<notin> set ids) (customers w)"
      by (auto intro: filter_cong)
    with Some show ?thesis
      by (simp add: acc await_def Customers_findOne_def Customers_remove_def matches_Id_eq Cons.IH)
  qed
qed

lemma set_arrayFromSet_aux:
  "set (foldl (\<lambda>s x. if x \<in> set s then s else s @ [x]) acc xs) = set acc \<union> set xs"
  by (induction xs arbitrary: acc) auto

lemma distinct_arrayFromSet_aux:
  "distinct acc \<Longrightarrow> distinct (foldl (\<lambda>s x. if x \<in> set s then s else s @ [x]) acc xs)"
  by (induction xs arbitrary: acc) auto

lemma set_arrayFromSet [simp]: "set (arrayFromSet xs) = set xs"
  by (simp add: arrayFromSet_def set_arrayFromSet_aux)

lemma distinct_arrayFromSet [simp]: "distinct (arrayFromSet xs)"
  by (simp add: arrayFromSet_def distinct_arrayFromSet_aux)


lemma foldl_absorb:
  "foldl absorb (f, t, c, m, p) xs =
     (f\<lparr>integrationId := (if xs = [] then integrationId f else integrationId (last xs))\<rparr>,
      t @ concat (map (\<lambda>c. orEmpty (tagIds c)) xs),
      c @ concat (map (\<lambda>c. orEmpty (companyIds c)) xs),
      m @ concat (map (\<lambda>c. orEmpty (emails c)) xs),
      p @ concat (map (\<lambda>c. orEmpty (phones c)) xs))"
  by (induction xs arbitrary: f t c m p) simp_all

lemma seeded_eq: "(if truthy s then [the s] else []) = seeded s"
  by (simp add: truthy_def seeded_def split: option.splits)

lemma invoke4:
  "await (invoke env c1) (\<lambda>_. await (invoke env c2) (\<lambda>_. await (invoke env c3) (\<lambda>_.
     await (invoke env c4) (\<lambda>_. resolve x)))) w =
   (case firstReject env [c1, c2, c3, c4] of None \<Rightarrow> Inr x | Some e \<Rightarrow> Inl e,
    \<lparr>customers = customers w, trace = trace w @ map Called (madeCalls env [c1, c2, c3, c4])\<rparr>)"
  by (simp add: await_invoke resolve_def logged_def split: option.splits)

lemma mergeCustomers_afterCheck:
  assumes "checkDuplication f (Some (Many ids)) w = (Inr (), w1)"
    and "customers w1 = customers w"
  shows "mergeCustomers env ids f w =
     await (createCustomer env (mergedFields ids f (customers w)) None) (\<lambda>customer.
     await (invoke env (ChangeCustomer ActivityLogs (customer_id customer) ids)) (\<lambda>_.
     await (invoke env (ChangeCustomer Conversations (customer_id customer) ids)) (\<lambda>_.
     await (invoke env (ChangeCustomer EngageMessages (customer_id customer) ids)) (\<lambda>_.
     await (invoke env (ChangeCustomer InternalNotes (customer_id customer) ids)) (\<lambda>_.
     resolve customer)))))
       \<lparr>customers = filter (\<lambda>c. customer_id c \<notin> set ids) (customers w),
        trace = trace w1 @ loopEvents ids (customers w)\<rparr>"
  unfolding mergeCustomers_def
  apply (subst await_Inr [of "checkDuplication f (Some (Many ids))" w "()" w1, OF assms(1)])
  apply (subst await_Inr [of "mergeLoop ids _" w1, OF mergeLoop_eq])
  apply (simp only: foldl_absorb seeded_eq prod.case assms(2) mergedFields_def Let_def append_Nil)
  done


lemma checkDuplication_passes:
  assumes "duplicatedField f ex (customers w) = None"
  obtains w1 qs where "checkDuplication f ex w = (Inr (), w1)"
    and "customers w1 = customers w"
    and "trace w1 = trace w @ map CustomersFind qs"
proof -
  from guardsE [OF guards_checkDuplication, of f ex w] obtain qs where
    "fst (checkDuplication f ex w) =
       (case duplicatedField f ex (customers w) of Some msg \<Rightarrow> Inl (Error msg) | None \<Rightarrow> Inr ())"
    "customers (snd (checkDuplication f ex w)) = customers w"
    "trace (snd (checkDuplication f ex w)) = trace w @ map CustomersFind qs"
    by blast
  with assms have "checkDuplication f ex w = (Inr (), snd (checkDuplication f ex w))"
    by (simp add: prod_eq_iff)
  with that \<open>customers (snd (checkDuplication f ex w)) = customers w\<close>
    \<open>trace (snd (checkDuplication f ex w)) = trace w @ map CustomersFind qs\<close>
  show ?thesis by blast
qed

lemma duplicatedField_mergedFields:
  "duplicatedField (mergedFields ids f cs) ex cs' = duplicatedField f ex cs'"
proof -
  have "twitterCollides (mergedFields ids f cs) = twitterCollides f"
    "facebookCollides (mergedFields ids f cs) = facebookCollides f"
    "emailCollides (mergedFields ids f cs) = emailCollides f"
    "phoneCollides (mergedFields ids f cs) = phoneCollides f"
    by (simp_all add: fun_eq_iff twitterCollides_def facebookCollides_def emailCollides_def
        phoneCollides_def mergedFields_def Let_def)
  then show ?thesis
    unfolding duplicatedField_def by (simp only:)
qed

lemma duplicatedField_excluded:
  "duplicatedField f None (filter (\<lambda>c. customer_id c \<notin> set ids) cs)
     = duplicatedField f (Some (Many ids)) cs"
  by (simp add: duplicatedField_def notExcluded_def Let_def)

lemma mergedFields_payload:
  "customFieldsData (mergedFields ids f cs) = customFieldsData f"
  by (simp add: mergedFields_def Let_def)

lemma ownerDefaulted_None: "d\<lparr>ownerId := ownerDefaulted d None\<rparr> = d"
  by (simp add: ownerDefaulted_def)

lemma mergeCustomers_passed:
  assumes "duplicatedField f (Some (Many ids)) (customers w) = None"
  shows "\<exists>qs qs'. mergeCustomers env ids f w =
     (case cleanMulti env (orEmpty (customFieldsData f)) of
        Inl e \<Rightarrow>
          (Inl e,
           \<lparr>customers = filter (\<lambda>c. customer_id c \<notin> set ids) (customers w),
            trace = trace w @ map CustomersFind qs @ loopEvents ids (customers w)
              @ map CustomersFind qs' @ [Called (CleanMulti (orEmpty (customFieldsData f)))]\<rparr>)
      | Inr cleaned \<Rightarrow>
          (case firstReject env (repoints (genId env) ids) of
             None \<Rightarrow> Inr (survivor env ids f cleaned (customers w))
           | Some e \<Rightarrow> Inl e,
           \<lparr>customers = filter (\<lambda>c. customer_id c \<notin> set ids) (customers w)
               @ [survivor env ids f cleaned (customers w)],
            trace = trace w @ map CustomersFind qs @ loopEvents ids (customers w)
              @ map CustomersFind qs'
              @ [Called (CleanMulti (orEmpty (customFieldsData f))),
                 CustomersCreate (survivor env ids f cleaned (customers w))]
              @ map Called (madeCalls env (repoints (genId env) ids))\<rparr>))"
proof -
  let ?cs = "customers w"
  let ?kept = "filter (\<lambda>c. customer_id c \<notin> set ids) ?cs"
  let ?doc = "mergedFields ids f ?cs"
  let ?payload = "orEmpty (customFieldsData f)"
  from assms obtain w1 qs where
    ck: "checkDuplication f (Some (Many ids)) w = (Inr (), w1)"
    and c1: "customers w1 = ?cs"
    and t1: "trace w1 = trace w @ map CustomersFind qs"
    by (rule checkDuplication_passes)
  let ?w2 = "\<lparr>customers = ?kept, trace = trace w1 @ loopEvents ids ?cs\<rparr>"
  have "duplicatedField ?doc None (customers ?w2) = None"
    using assms by (simp add: duplicatedField_mergedFields duplicatedField_excluded)
  then obtain w3 qs' where
    ck2: "checkDuplication ?doc None ?w2 = (Inr (), w3)"
    and c3: "customers w3 = customers ?w2"
    and t3: "trace w3 = trace ?w2 @ map CustomersFind qs'"
    by (rule checkDuplication_passes)
  let ?w4 = "logged (Called (CleanMulti ?payload)) w3"
  have cr: "createCustomer env ?doc None ?w2 =
     (case cleanMulti env ?payload of
        Inl e \<Rightarrow> (Inl e, ?w4)
      | Inr cleaned \<Rightarrow>
          Customers_create (newDocument env (?doc\<lparr>customFieldsData := Some cleaned\<rparr>)) ?w4)"
    using afterCheck [OF ck2, of env None]
    by (simp only: ownerDefaulted_None mergedFields_payload)
  have m: "mergeCustomers env ids f w =
     await (createCustomer env ?doc None) (\<lambda>customer.
     await (invoke env (ChangeCustomer ActivityLogs (customer_id customer) ids)) (\<lambda>_.
     await (invoke env (ChangeCustomer Conversations (customer_id customer) ids)) (\<lambda>_.
     await (invoke env (ChangeCustomer EngageMessages (customer_id customer) ids)) (\<lambda>_.
     await (invoke env (ChangeCustomer InternalNotes (customer_id customer) ids)) (\<lambda>_.
     resolve customer))))) ?w2"
    by (rule mergeCustomers_afterCheck [OF ck c1])
  have w4: "?w4 = \<lparr>customers = ?kept,
      trace = trace w @ map CustomersFind qs @ loopEvents ids ?cs @ map CustomersFind qs'
        @ [Called (CleanMulti ?payload)]\<rparr>"
    by (rule world_eqI) (simp_all add: c3 t3 t1)
  show ?thesis
  proof (cases "cleanMulti env ?payload")
    case (Inl e)
    with cr have "createCustomer env ?doc None ?w2 = (Inl e, ?w4)"
      by simp
    from await_Inl [of "createCustomer env ?doc None" ?w2 e ?w4, OF this]
    have "mergeCustomers env ids f w = (Inl e, ?w4)"
      unfolding m .
    with Inl w4 show ?thesis
      by (simp only: sum.case) blast
  next
    case (Inr cleaned)
    let ?c = "survivor env ids f cleaned ?cs"
    let ?w5 = "logged (CustomersCreate ?c) (?w4\<lparr>customers := customers ?w4 @ [?c]\<rparr>)"
    from cr Inr have cc: "createCustomer env ?doc None ?w2 = (Inr ?c, ?w5)"
      by (simp add: Customers_create_def survivor_def)
    have id: "customer_id ?c = genId env"
      by (simp add: survivor_def newDocument_def)
    have "mergeCustomers env ids f w =
        await (invoke env (ChangeCustomer ActivityLogs (customer_id ?c) ids)) (\<lambda>_.
        await (invoke env (ChangeCustomer Conversations (customer_id ?c) ids)) (\<lambda>_.
        await (invoke env (ChangeCustomer EngageMessages (customer_id ?c) ids)) (\<lambda>_.
        await (invoke env (ChangeCustomer InternalNotes (customer_id ?c) ids)) (\<lambda>_.
        resolve ?c)))) ?w5"
      unfolding m by (rule await_Inr [of "createCustomer env ?doc None" ?w2 ?c ?w5, OF cc])
    then have "mergeCustomers env ids f w =
        (case firstReject env (repoints (genId env) ids) of None \<Rightarrow> Inr ?c | Some e \<Rightarrow> Inl e,
         \<lparr>customers = customers ?w5,
          trace = trace ?w5 @ map Called (madeCalls env (repoints (genId env) ids))\<rparr>)"
      unfolding invoke4 id repoints_def .
    moreover have "customers ?w5 = ?kept @ [?c]"
      by (simp add: c3)
    moreover have "trace ?w5 = trace w @ map CustomersFind qs @ loopEvents ids ?cs
        @ map CustomersFind qs' @ [Called (CleanMulti ?payload), CustomersCreate ?c]"
      by (simp add: t3 t1)
    ultimately have "mergeCustomers env ids f w =
        (case firstReject env (repoints (genId env) ids) of None \<Rightarrow> Inr ?c | Some e \<Rightarrow> Inl e,
         \<lparr>customers = ?kept @ [?c],
          trace = trace w @ map CustomersFind qs @ loopEvents ids ?cs
            @ map CustomersFind qs' @ [Called (CleanMulti ?payload), CustomersCreate ?c]
            @ map Called (madeCalls env (repoints (genId env) ids))\<rparr>)"
      by (simp only: append_assoc)
    with Inr show ?thesis
      by (simp only: sum.case) blast
  qed
qed

lemma mergeCustomers_failed:
  assumes "checkDuplication f (Some (Many ids)) w = (Inl e, w1)"
  shows "mergeCustomers env ids f w = (Inl e, w1)"
  unfolding mergeCustomers_def
  by (rule await_Inl [of "checkDuplication f (Some (Many ids))" w e w1, OF assms])

lemma mergeCustomers_succeeded:
  assumes "fst (mergeCustomers env ids f w) = Inr c"
  obtains cleaned qs qs' where
    "duplicatedField f (Some (Many ids)) (customers w) = None"
    and "cleanMulti env (orEmpty (customFieldsData f)) = Inr cleaned"
    and "firstReject env (repoints (genId env) ids) = None"
    and "c = survivor env ids f cleaned (customers w)"
    and "snd (mergeCustomers env ids f w) =
      \<lparr>customers = filter (\<lambda>c. customer_id c \<notin> set ids) (customers w)
          @ [survivor env ids f cleaned (customers w)],
       trace = trace w @ map CustomersFind qs @ loopEvents ids (customers w)
         @ map CustomersFind qs'
         @ [Called (CleanMulti (orEmpty (customFieldsData f))),
            CustomersCreate (survivor env ids f cleaned (customers w))]
         @ map Called (madeCalls env (repoints (genId env) ids))\<rparr>"
proof -
  have dup: "duplicatedField f (Some (Many ids)) (customers w) = None"
  proof (rule ccontr)
    assume "duplicatedField f (Some (Many ids)) (customers w) \<noteq> None"
    then obtain msg where "duplicatedField f (Some (Many ids)) (customers w) = Some msg"
      by blast
    then have "fst (checkDuplication f (Some (Many ids)) w) = Inl (Error msg)"
      by (simp add: checkDuplication_fst)
    then have "checkDuplication f (Some (Many ids)) w
        = (Inl (Error msg), snd (checkDuplication f (Some (Many ids)) w))"
      by (simp add: prod_eq_iff)
    from mergeCustomers_failed [OF this, of env]
    have "fst (mergeCustomers env ids f w) = Inl (Error msg)"
      by simp
    with assms show False by simp
  qed
  from mergeCustomers_passed [OF dup, of env] obtain qs qs' where
    eq: "mergeCustomers env ids f w =
     (case cleanMulti env (orEmpty (customFieldsData f)) of
        Inl e \<Rightarrow>
          (Inl e,
           \<lparr>customers = filter (\<lambda>c. customer_id c \<notin> set ids) (customers w),
            trace = trace w @ map CustomersFind qs @ loopEvents ids (customers w)
              @ map CustomersFind qs' @ [Called (CleanMulti (orEmpty (customFieldsData f)))]\<rparr>)
      | Inr cleaned \<Rightarrow>
          (case firstReject env (repoints (genId env) ids) of
             None \<Rightarrow> Inr (survivor env ids f cleaned (customers w))
           | Some e \<Rightarrow> Inl e,
           \<lparr>customers = filter (\<lambda>c. customer_id c \<notin> set ids) (customers w)
               @ [survivor env ids f cleaned (customers w)],
            trace = trace w @ map CustomersFind qs @ loopEvents ids (customers w)
              @ map CustomersFind qs'
              @ [Called (CleanMulti (orEmpty (customFieldsData f))),
                 CustomersCreate (survivor env ids f cleaned (customers w))]
              @ map Called (madeCalls env (repoints (genId env) ids))\<rparr>))"
    by blast
  show ?thesis
  proof (cases "cleanMulti env (orEmpty (customFieldsData f))")
    case (Inl e)
    with eq assms show ?thesis by simp
  next
    case (Inr cleaned)
    show ?thesis
    proof (cases "firstReject env (repoints (genId env) ids)")
      case None
      with eq Inr assms that [of cleaned qs qs'] dup show ?thesis by simp
    next
      case (Some e)
      with eq Inr assms show ?thesis by simp
    qed
  qed
qed

lemma find_by_id:
  assumes "distinct (map customer_id cs)" and "A \<in> set cs"
  shows "find (\<lambda>c. customer_id c = customer_id A) cs = Some A"
  using assms by (induction cs) (auto simp: image_iff)

lemma absorbed_pair:
  assumes "distinct (map customer_id cs)" and "A \<in> set cs" and "B \<in> set cs"
  shows "absorbed [customer_id A, customer_id B] cs =
           (if customer_id A = customer_id B then [A] else [A, B])"
proof -
  let ?rest = "filter (\<lambda>c. customer_id c \<noteq> customer_id A) cs"
  have a: "find (\<lambda>c. customer_id c = customer_id A) cs = Some A"
    using assms(1,2) by (rule find_by_id)
  show ?thesis
  proof (cases "customer_id A = customer_id B")
    case True
    then have "find (\<lambda>c. customer_id c = customer_id B) ?rest = None"
      by (simp add: find_None_iff)
    with a True show ?thesis by simp
  next
    case False
    with assms(3) have "B \<in> set ?rest" by simp
    moreover have "distinct (map customer_id ?rest)"
      using assms(1) by (rule distinct_map_filter)
    ultimately have "find (\<lambda>c. customer_id c = customer_id B) ?rest = Some B"
      by (rule find_by_id [rotated])
    with a False show ?thesis by simp
  qed
qed

lemma same_id_same_record:
  assumes "distinct (map customer_id cs)" and "A \<in> set cs" and "B \<in> set cs"
    and "customer_id A = customer_id B"
  shows "A = B"
  using assms by (meson distinct_map inj_onD)


lemma mergeCustomers_returns:
  assumes "duplicatedField f (Some (Many ids)) (customers w) = None"
    and "cleanMulti env (orEmpty (customFieldsData f)) = Inr cleaned"
    and "firstReject env (repoints (genId env) ids) = None"
  shows "fst (mergeCustomers env ids f w) = Inr (survivor env ids f cleaned (customers w))"
    and "customers (snd (mergeCustomers env ids f w)) =
           filter (\<lambda>c. customer_id c \<notin> set ids) (customers w)
           @ [survivor env ids f cleaned (customers w)]"
  using mergeCustomers_passed [OF assms(1), of env] assms(2,3) by auto

lemma tagIds_survivor:
  "tagIds (survivor env ids f cleaned cs)
     = Some (arrayFromSet (concat (map (\<lambda>c. orEmpty (tagIds c)) (absorbed ids cs))))"
  "companyIds (survivor env ids f cleaned cs)
     = Some (arrayFromSet (concat (map (\<lambda>c. orEmpty (companyIds c)) (absorbed ids cs))))"
  "emails (survivor env ids f cleaned cs)
     = Some (arrayFromSet (seeded (primaryEmail f)
               @ concat (map (\<lambda>c. orEmpty (emails c)) (absorbed ids cs))))"
  "phones (survivor env ids f cleaned cs)
     = Some (arrayFromSet (seeded (primaryPhone f)
               @ concat (map (\<lambda>c. orEmpty (phones c)) (absorbed ids cs))))"
  "integrationId (survivor env ids f cleaned cs)
     = (if absorbed ids cs = [] then integrationId f else integrationId (last (absorbed ids cs)))"
  "customer_id (survivor env ids f cleaned cs) = genId env"
  by (simp_all add: survivor_def newDocument_def mergedFields_def Let_def)

text \<open>
  C1. Let \<open>A\<close> and \<open>B\<close> be records of the collection, whose identifiers are unique, and
  let the merge of \<open>[A, B]\<close> pass the checker, with \<open>Fields.cleanMulti\<close> and the sibling models
  resolving. Then the merge returns a survivor, which is in the collection afterwards. Its
  \<open>tagIds\<close> have no duplicates and are, as a set, the union of the tags of \<open>A\<close> and of \<open>B\<close>,
  and so are its \<open>companyIds\<close>. Its \<open>emails\<close> and \<open>phones\<close> have no duplicates either, and are
  the union of the lists of \<open>A\<close> and of \<open>B\<close> and of the supplied primary email and primary
  phone, when given and not empty, from which these two accumulators start.
\<close>

theorem mergeCustomers_union:
  assumes "A \<in> set (customers w)" and "B \<in> set (customers w)"
    and "distinct (map customer_id (customers w))"
    and "duplicatedField f (Some (Many [customer_id A, customer_id B])) (customers w) = None"
    and "cleanMulti env (orEmpty (customFieldsData f)) = Inr cleaned"
    and "firstReject env (repoints (genId env) [customer_id A, customer_id B]) = None"
  shows "\<exists>c ts ks es ps.
       fst (mergeCustomers env [customer_id A, customer_id B] f w) = Inr c
     \<and> c \<in> set (customers (snd (mergeCustomers env [customer_id A, customer_id B] f w)))
     \<and> tagIds c = Some ts \<and> distinct ts
     \<and> set ts = set (orEmpty (tagIds A)) \<union> set (orEmpty (tagIds B))
     \<and> companyIds c = Some ks \<and> distinct ks
     \<and> set ks = set (orEmpty (companyIds A)) \<union> set (orEmpty (companyIds B))
     \<and> emails c = Some es \<and> distinct es
     \<and> set es = set (seeded (primaryEmail f))
                \<union> set (orEmpty (emails A)) \<union> set (orEmpty (emails B))
     \<and> phones c = Some ps \<and> distinct ps
     \<and> set ps = set (seeded (primaryPhone f))
                \<union> set (orEmpty (phones A)) \<union> set (orEmpty (phones B))"
proof -
  let ?ids = "[customer_id A, customer_id B]"
  let ?c = "survivor env ?ids f cleaned (customers w)"
  note ret = mergeCustomers_returns [OF assms(4-6)]
  note found = absorbed_pair [OF assms(3,1,2)]
  have r: "fst (mergeCustomers env ?ids f w) = Inr ?c"
    by (rule ret(1))
  have m: "?c \<in> set (customers (snd (mergeCustomers env ?ids f w)))"
    unfolding ret(2) by simp
  have p: "\<exists>ts ks es ps.
       tagIds ?c = Some ts \<and> distinct ts
     \<and> set ts = set (orEmpty (tagIds A)) \<union> set (orEmpty (tagIds B))
     \<and> companyIds ?c = Some ks \<and> distinct ks
     \<and> set ks = set (orEmpty (companyIds A)) \<union> set (orEmpty (companyIds B))
     \<and> emails ?c = Some es \<and> distinct es
     \<and> set es = set (seeded (primaryEmail f))
                \<union> set (orEmpty (emails A)) \<union> set (orEmpty (emails B))
     \<and> phones ?c = Some ps \<and> distinct ps
     \<and> set ps = set (seeded (primaryPhone f))
                \<union> set (orEmpty (phones A)) \<union> set (orEmpty (phones B))"
  proof (cases "customer_id A = customer_id B")
    case True
    with assms(1-3) have "A = B" by (simp add: same_id_same_record)
    with True show ?thesis
      unfolding tagIds_survivor found by auto
  next
    case False
    then show ?thesis
      unfolding tagIds_survivor found by auto
  qed
  from r m p show ?thesis by blast
qed

theorem mergeCustomers_union_witness:
  "\<exists>c ts es.
       fst (mergeCustomers quiet [''A'', ''B''] (noFields\<lparr>primaryEmail := Some ''ab@erxes.io''\<rparr>) store) = Inr c
     \<and> tagIds c = Some ts \<and> distinct ts \<and> set ts = {''t1'', ''t2''}
     \<and> emails c = Some es \<and> distinct es
     \<and> set es = {''ab@erxes.io'', ''al@erxes.io'', ''b@erxes.io''}"
proof -
  let ?f = "noFields\<lparr>primaryEmail := Some ''ab@erxes.io''\<rparr>"
  have ids: "customer_id alice = ''A''" "customer_id bob = ''B''"
    by (simp_all add: alice_def bob_def)
  have d: "duplicatedField ?f (Some (Many [customer_id alice, customer_id bob])) (customers store) = None"
    by (simp add: duplicatedField_def noFields_def store_def alice_def bob_def notExcluded_def
        twitterCollides_def facebookCollides_def emailCollides_def phoneCollides_def)
  have cm: "cleanMulti quiet (orEmpty (customFieldsData ?f)) = Inr []"
    by (simp add: quiet_def noFields_def orEmpty_def)
  have fr: "firstReject quiet (repoints (genId quiet) [customer_id alice, customer_id bob]) = None"
    by (simp add: quiet_def repoints_def)
  have "alice \<in> set (customers store)" "bob \<in> set (customers store)"
    "distinct (map customer_id (customers store))"
    by (simp_all add: store_def ids)
  from mergeCustomers_union [OF this d cm fr] obtain c ts es where
    "fst (mergeCustomers quiet [customer_id alice, customer_id bob] ?f store) = Inr c"
    "tagIds c = Some ts" "distinct ts"
    "set ts = set (orEmpty (tagIds alice)) \<union> set (orEmpty (tagIds bob))"
    "emails c = Some es" "distinct es"
    "set es = set (seeded (primaryEmail ?f)) \<union> set (orEmpty (emails alice))
       \<union> set (orEmpty (emails bob))"
    by blast
  moreover have "set (orEmpty (tagIds alice)) \<union> set (orEmpty (tagIds bob)) = {''t1'', ''t2''}"
    by (auto simp: alice_def bob_def orEmpty_def)
  moreover have "set (seeded (primaryEmail ?f)) \<union> set (orEmpty (emails alice))
       \<union> set (orEmpty (emails bob)) = {''ab@erxes.io'', ''al@erxes.io'', ''b@erxes.io''}"
    by (auto simp: alice_def bob_def orEmpty_def seeded_def noFields_def)
  ultimately show ?thesis
    unfolding ids by (simp only:) blast
qed

text \<open>
  The emails of the survivor are not the union of the emails of \<open>A\<close> and of \<open>B\<close> alone: the
  merge of \<open>alice\<close> and \<open>bob\<close> with a supplied primary email returns a survivor whose emails
  start with that address, which neither of the two has.
\<close>

theorem mergeCustomers_seeded_emails_counterexample:
  "map_sum id emails
     (fst (mergeCustomers quiet [''A'', ''B''] (noFields\<lparr>primaryEmail := Some ''ab@erxes.io''\<rparr>) store))
     = Inr (Some [''ab@erxes.io'', ''al@erxes.io'', ''b@erxes.io''])
   \<and> emails alice = Some [''al@erxes.io'']
   \<and> emails bob = Some [''b@erxes.io'']"
proof -
  let ?f = "noFields\<lparr>primaryEmail := Some ''ab@erxes.io''\<rparr>"
  have d: "duplicatedField ?f (Some (Many [''A'', ''B''])) (customers store) = None"
    by (simp add: duplicatedField_def noFields_def store_def alice_def bob_def notExcluded_def
        twitterCollides_def facebookCollides_def emailCollides_def phoneCollides_def)
  have cm: "cleanMulti quiet (orEmpty (customFieldsData ?f)) = Inr []"
    by (simp add: quiet_def noFields_def orEmpty_def)
  have fr: "firstReject quiet (repoints (genId quiet) [''A'', ''B'']) = None"
    by (simp add: quiet_def repoints_def)
  have "emails (survivor quiet [''A'', ''B''] ?f [] (customers store))
      = Some [''ab@erxes.io'', ''al@erxes.io'', ''b@erxes.io'']"
    by (simp add: tagIds_survivor store_def alice_def bob_def orEmpty_def seeded_def
        noFields_def arrayFromSet_def)
  with mergeCustomers_returns(1) [OF d cm fr] show ?thesis
    by (simp add: alice_def bob_def)
qed

lemma remove_in_loopEvents:
  assumes "i \<in> set ids" and "\<exists>c \<in> set cs. customer_id c = i"
  shows "CustomersRemove [Id_eq i] \<in> set (loopEvents ids cs)"
  using assms
proof (induction ids arbitrary: cs)
  case Nil
  then show ?case by simp
next
  case (Cons j ids)
  show ?case
  proof (cases "i = j")
    case True
    with Cons.prems(2) have "find (\<lambda>c. customer_id c = j) cs \<noteq> None"
      by (auto simp: find_None_iff)
    with True show ?thesis by auto
  next
    case False
    with Cons.prems have i: "i \<in> set ids"
      and here: "\<exists>c \<in> set cs. customer_id c = i"
      and there: "\<exists>c \<in> set (filter (\<lambda>c. customer_id c \<noteq> j) cs). customer_id c = i"
      by auto
    show ?thesis
    proof (cases "find (\<lambda>c. customer_id c = j) cs")
      case None
      with Cons.IH [OF i here] show ?thesis by simp
    next
      case (Some obj)
      with Cons.IH [OF i there] show ?thesis by simp
    qed
  qed
qed

lemma no_create_in_loopEvents: "CustomersCreate x \<notin> set (loopEvents ids cs)"
  by (induction ids arbitrary: cs) (auto split: option.splits)

text \<open>
  C2. Let \<open>A\<close> and \<open>B\<close> be records of the collection, whose identifiers are unique, and
  let the identifier generated for the survivor be neither of theirs. When merging
  \<open>[A, B]\<close> returns the survivor, no record with the identifier of \<open>A\<close> or of \<open>B\<close> is
  left in the collection, the survivor is in it, and its \<open>integrationId\<close> is that of \<open>B\<close>,
  the record processed last. Both removals come before the creation of the survivor.
\<close>

theorem mergeCustomers_removes_inputs:
  assumes "A \<in> set (customers w)" and "B \<in> set (customers w)"
    and "distinct (map customer_id (customers w))"
    and "genId env \<noteq> customer_id A" and "genId env \<noteq> customer_id B"
    and "fst (mergeCustomers env [customer_id A, customer_id B] f w) = Inr c"
  shows "(\<forall>x \<in> set (customers (snd (mergeCustomers env [customer_id A, customer_id B] f w))).
            customer_id x \<noteq> customer_id A \<and> customer_id x \<noteq> customer_id B)
    \<and> c \<in> set (customers (snd (mergeCustomers env [customer_id A, customer_id B] f w)))
    \<and> integrationId c = integrationId B
    \<and> (\<exists>before after.
          trace (snd (mergeCustomers env [customer_id A, customer_id B] f w))
            = trace w @ before @ CustomersCreate c # after
        \<and> CustomersRemove [Id_eq (customer_id A)] \<in> set before
        \<and> CustomersRemove [Id_eq (customer_id B)] \<in> set before
        \<and> (\<forall>x. CustomersCreate x \<notin> set before))"
proof -
  let ?ids = "[customer_id A, customer_id B]"
  let ?cs = "customers w"
  from assms(6) obtain cleaned qs qs' where
    c: "c = survivor env ?ids f cleaned ?cs"
    and w': "snd (mergeCustomers env ?ids f w) =
      \<lparr>customers = filter (\<lambda>c. customer_id c \<notin> set ?ids) ?cs @ [survivor env ?ids f cleaned ?cs],
       trace = trace w @ map CustomersFind qs @ loopEvents ?ids ?cs
         @ map CustomersFind qs'
         @ [Called (CleanMulti (orEmpty (customFieldsData f))),
            CustomersCreate (survivor env ?ids f cleaned ?cs)]
         @ map Called (madeCalls env (repoints (genId env) ?ids))\<rparr>"
    by (rule mergeCustomers_succeeded)
  have gone: "\<forall>x \<in> set (customers (snd (mergeCustomers env ?ids f w))).
      customer_id x \<noteq> customer_id A \<and> customer_id x \<noteq> customer_id B"
    unfolding w' c using assms(4,5) by (auto simp: tagIds_survivor)
  have there: "c \<in> set (customers (snd (mergeCustomers env ?ids f w)))"
    unfolding w' c by simp
  have "absorbed ?ids ?cs = (if customer_id A = customer_id B then [A] else [A, B])"
    by (rule absorbed_pair [OF assms(3,1,2)])
  moreover have "customer_id A = customer_id B \<Longrightarrow> A = B"
    using assms(1-3) by (simp add: same_id_same_record)
  ultimately have last: "integrationId c = integrationId B"
    unfolding c tagIds_survivor by auto
  let ?before = "map CustomersFind qs @ loopEvents ?ids ?cs @ map CustomersFind qs'
      @ [Called (CleanMulti (orEmpty (customFieldsData f)))]"
  let ?after = "map Called (madeCalls env (repoints (genId env) ?ids))"
  have t: "trace (snd (mergeCustomers env ?ids f w)) = trace w @ ?before @ CustomersCreate c # ?after"
    unfolding w' c by simp
  have ra: "CustomersRemove [Id_eq (customer_id A)] \<in> set (loopEvents ?ids ?cs)"
    using assms(1) by (intro remove_in_loopEvents) auto
  have rb: "CustomersRemove [Id_eq (customer_id B)] \<in> set (loopEvents ?ids ?cs)"
    using assms(2) by (intro remove_in_loopEvents) auto
  have nc: "\<forall>x. CustomersCreate x \<notin> set ?before"
    using no_create_in_loopEvents [of _ ?ids ?cs] by auto
  from ra rb have "CustomersRemove [Id_eq (customer_id A)] \<in> set ?before"
    "CustomersRemove [Id_eq (customer_id B)] \<in> set ?before"
    by simp_all
  with t nc have "\<exists>before after.
          trace (snd (mergeCustomers env ?ids f w)) = trace w @ before @ CustomersCreate c # after
        \<and> CustomersRemove [Id_eq (customer_id A)] \<in> set before
        \<and> CustomersRemove [Id_eq (customer_id B)] \<in> set before
        \<and> (\<forall>x. CustomersCreate x \<notin> set before)"
    by blast
  with gone there last show ?thesis by blast
qed


theorem mergeCustomers_removes_inputs_witness:
  "map customer_id (customers (snd (mergeCustomers quiet [''A'', ''B''] noFields store))) = [''N'']
   \<and> integrationId (survivor quiet [''A'', ''B''] noFields [] [alice, bob]) = Some ''int-b''"
proof -
  define s where "s = survivor quiet [''A'', ''B''] noFields [] [alice, bob]"
  have d: "duplicatedField noFields (Some (Many [''A'', ''B''])) (customers store) = None"
    by (simp add: duplicatedField_def noFields_def store_def alice_def bob_def notExcluded_def
        twitterCollides_def facebookCollides_def emailCollides_def phoneCollides_def)
  have ids: "customer_id alice = ''A''" "customer_id bob = ''B''"
    by (simp_all add: alice_def bob_def)
  have cm: "cleanMulti quiet (orEmpty (customFieldsData noFields)) = Inr []"
    by (simp add: quiet_def noFields_def orEmpty_def)
  have fr: "firstReject quiet (repoints (genId quiet) [''A'', ''B'']) = None"
    by (simp add: quiet_def repoints_def)
  have "fst (mergeCustomers quiet [''A'', ''B''] noFields store) = Inr s"
    unfolding s_def using mergeCustomers_returns(1) [OF d cm fr] by (simp add: store_def)
  then have m: "fst (mergeCustomers quiet [customer_id alice, customer_id bob] noFields store) = Inr s"
    by (simp only: ids)
  have "alice \<in> set (customers store)" "bob \<in> set (customers store)"
    "distinct (map customer_id (customers store))"
    "genId quiet \<noteq> customer_id alice" "genId quiet \<noteq> customer_id bob"
    by (simp_all add: store_def ids quiet_def)
  from mergeCustomers_removes_inputs [OF this m]
  have "integrationId s = integrationId bob"
    by blast
  moreover have "map customer_id (customers (snd (mergeCustomers quiet [''A'', ''B''] noFields store)))
      = [''N'']"
    using mergeCustomers_returns(2) [OF d cm fr]
    by (simp add: store_def ids tagIds_survivor) (simp add: quiet_def)
  ultimately show ?thesis
    unfolding s_def by (simp add: bob_def)
qed










section \<open>Update\<close>

lemma duplicatedField_Some:
  assumes "duplicatedField f ex cs = Some msg"
  shows "\<exists>c \<in> set cs. notExcluded ex c \<and> collision msg f c"
  using assms
  by (auto simp: duplicatedField_def collision_def emailCollides_def phoneCollides_def Let_def
      split: if_splits option.splits)

lemma setFields_id [simp]: "customer_id (setFields doc t c) = customer_id c"
  by (simp add: setFields_def)

lemma updateCustomer_afterCheck:
  assumes "checkDuplication doc (Some (Single i)) w = (Inr (), w1)"
    and "customers w1 = customers w"
  shows "fst (updateCustomer env i doc w) = updated env i doc (customers w)"
proof -
  have u: "updateCustomer env i doc w =
      await (case customFieldsData doc of
              Some d \<Rightarrow> await (Fields_cleanMulti env d) (\<lambda>cleaned.
                          resolve (doc\<lparr>customFieldsData := Some cleaned\<rparr>))
            | None \<Rightarrow> resolve doc) (\<lambda>doc1.
      await (Customers_update [Id_eq i] (setFields doc1 (now env))) (\<lambda>_.
      Customers_findOne [Id_eq i])) w1"
    unfolding updateCustomer_def
    by (rule await_Inr [of "checkDuplication doc (Some (Single i))" w "()" w1, OF assms(1)])
  have tail: "fst (await (Customers_update [Id_eq i] (setFields d (now env))) (\<lambda>_.
      Customers_findOne [Id_eq i]) w2)
      = Inr (map_option (setFields d (now env)) (find (\<lambda>c. customer_id c = i) (customers w2)))"
    for d w2
    by (simp add: await_def Customers_update_def Customers_findOne_def matches_Id_eq
        find_updateFirst)
  show ?thesis
  proof (cases "customFieldsData doc")
    case None
    then show ?thesis
      unfolding u updated_def by (simp add: tail assms(2))
  next
    case (Some d)
    show ?thesis
    proof (cases "cleanMulti env d")
      case (Inl e)
      with Some show ?thesis
        unfolding u updated_def by (simp add: await_def Fields_cleanMulti_def)
    next
      case (Inr cleaned)
      have k: "await (await (Fields_cleanMulti env d) (\<lambda>cleaned.
                resolve (doc\<lparr>customFieldsData := Some cleaned\<rparr>))) k w1
          = k (doc\<lparr>customFieldsData := Some cleaned\<rparr>) (logged (Called (CleanMulti d)) w1)" for k
        by (simp add: await_def Fields_cleanMulti_def resolve_def Inr)
      from Some Inr show ?thesis
        unfolding u updated_def by (simp add: k tail assms(2))
    qed
  qed
qed

lemma updateCustomer_rejected:
  assumes "duplicatedField doc (Some (Single i)) (customers w) = Some msg"
  shows "fst (updateCustomer env i doc w) = Inl (Error msg)"
proof (cases rule: checkDuplication_cases [of doc "Some (Single i)" w])
  case (dup msg' w1)
  from await_Inl [of "checkDuplication doc (Some (Single i))" w "Error msg'" w1, OF dup(2)]
  have "updateCustomer env i doc w = (Inl (Error msg'), w1)"
    unfolding updateCustomer_def .
  with dup(1) assms show ?thesis by simp
next
  case (ok w1)
  with assms show ?thesis by simp
qed

text \<open>
  C4. \<open>updateCustomer\<close> runs the checker with the target identifier, a non-empty string,
  excluded: the checker's verdict is the one it gives, with no exclusion, on the collection
  without the target, and the update fails with the checker's message when there is one.
  So the update fails only with a duplicate message that names an identity value of the
  document held by some record other than the target, or with the error of
  \<open>Fields.cleanMulti\<close>. Updating a customer \<open>A\<close> of the collection with its own primary
  email, which no other record holds as primary or secondary email, does not fail: it
  returns the record after the write.
\<close>

theorem updateCustomer_excludes_itself:
  assumes "i \<noteq> []"
  shows "fst (updateCustomer env i doc w) =
      (case duplicatedField doc (Some (Single i)) (customers w) of
         Some msg \<Rightarrow> Inl (Error msg)
       | None \<Rightarrow> updated env i doc (customers w))
    \<and> duplicatedField doc (Some (Single i)) (customers w)
        = duplicatedField doc None (filter (\<lambda>c. customer_id c \<noteq> i) (customers w))
    \<and> (\<forall>e. fst (updateCustomer env i doc w) = Inl e \<longrightarrow>
          (\<exists>msg \<in> duplicateMessages. e = Error msg
             \<and> (\<exists>c \<in> set (customers w). customer_id c \<noteq> i \<and> collision msg doc c))
          \<or> (\<exists>d. customFieldsData doc = Some d \<and> cleanMulti env d = Inl e))
    \<and> (\<forall>A e. A \<in> set (customers w) \<and> customer_id A = i \<and> primaryEmail A = Some e
          \<and> primaryEmail doc = Some e \<and> twitterData doc = None \<and> facebookData doc = None
          \<and> primaryPhone doc = None \<and> customFieldsData doc = None
          \<and> (\<forall>c \<in> set (customers w). customer_id c \<noteq> i \<longrightarrow>
                primaryEmail c \<noteq> Some e \<and> e \<notin> set (orEmpty (emails c)))
          \<longrightarrow> fst (updateCustomer env i doc w)
                = Inr (map_option (setFields doc (now env))
                        (find (\<lambda>c. customer_id c = i) (customers w))))"
proof -
  let ?d = "duplicatedField doc (Some (Single i)) (customers w)"
  have r: "fst (updateCustomer env i doc w) =
      (case ?d of Some msg \<Rightarrow> Inl (Error msg) | None \<Rightarrow> updated env i doc (customers w))"
  proof (cases rule: checkDuplication_cases [of doc "Some (Single i)" w])
    case (dup msg w1)
    from await_Inl [of "checkDuplication doc (Some (Single i))" w "Error msg" w1, OF dup(2)]
    have "updateCustomer env i doc w = (Inl (Error msg), w1)"
      unfolding updateCustomer_def .
    with dup(1) show ?thesis by simp
  next
    case (ok w1)
    from updateCustomer_afterCheck [OF ok(2,3)] ok(1) show ?thesis by simp
  qed
  have o: "(\<exists>msg \<in> duplicateMessages. e = Error msg
             \<and> (\<exists>c \<in> set (customers w). customer_id c \<noteq> i \<and> collision msg doc c))
          \<or> (\<exists>d. customFieldsData doc = Some d \<and> cleanMulti env d = Inl e)"
    if e: "fst (updateCustomer env i doc w) = Inl e" for e
  proof (cases ?d)
    case (Some msg)
    from duplicatedField_Some [OF Some] assms
    have "\<exists>c \<in> set (customers w). customer_id c \<noteq> i \<and> collision msg doc c"
      by (auto simp: notExcluded_def)
    moreover from Some have "msg \<in> duplicateMessages"
      by (auto simp: duplicatedField_def duplicateMessages_def Let_def split: if_splits)
    moreover from r e Some have "e = Error msg"
      by simp
    ultimately show ?thesis by blast
  next
    case None
    with r e have "updated env i doc (customers w) = Inl e"
      by simp
    then show ?thesis
      by (auto simp: updated_def split: option.splits sum.splits)
  qed
  have s: "fst (updateCustomer env i doc w)
        = Inr (map_option (setFields doc (now env)) (find (\<lambda>c. customer_id c = i) (customers w)))"
    if "primaryEmail doc = Some e" "twitterData doc = None" "facebookData doc = None"
      "primaryPhone doc = None" "customFieldsData doc = None"
      "\<forall>c \<in> set (customers w). customer_id c \<noteq> i \<longrightarrow>
          primaryEmail c \<noteq> Some e \<and> e \<notin> set (orEmpty (emails c))" for e
  proof -
    have "?d = None"
      using that assms
      by (auto simp: duplicatedField_def Let_def notExcluded_def twitterCollides_def
          facebookCollides_def emailCollides_def phoneCollides_def)
    with r that(5) show ?thesis by (simp add: updated_def)
  qed
  have x: "?d = duplicatedField doc None (filter (\<lambda>c. customer_id c \<noteq> i) (customers w))"
    using assms by (simp add: duplicatedField_def notExcluded_def Let_def)
  from r x o s show ?thesis by blast
qed


theorem updateCustomer_excludes_itself_witness:
  "fst (updateCustomer quiet ''A'' (noFields\<lparr>primaryEmail := Some ''alice@erxes.io''\<rparr>) store)
     = Inr (Some (alice\<lparr>modifiedAt := 9\<rparr>))
   \<and> fst (updateCustomer quiet ''A'' (noFields\<lparr>primaryEmail := Some ''b@erxes.io''\<rparr>) store)
     = Inl (Error ''Duplicated email'')"
proof -
  let ?own = "noFields\<lparr>primaryEmail := Some ''alice@erxes.io''\<rparr>"
  let ?other = "noFields\<lparr>primaryEmail := Some ''b@erxes.io''\<rparr>"
  have i: "''A'' \<noteq> []"
    by simp
  have pre: "alice \<in> set (customers store) \<and> customer_id alice = ''A''
      \<and> primaryEmail alice = Some ''alice@erxes.io''
      \<and> primaryEmail ?own = Some ''alice@erxes.io'' \<and> twitterData ?own = None
      \<and> facebookData ?own = None \<and> primaryPhone ?own = None \<and> customFieldsData ?own = None
      \<and> (\<forall>c \<in> set (customers store). customer_id c \<noteq> ''A'' \<longrightarrow>
            primaryEmail c \<noteq> Some ''alice@erxes.io''
            \<and> ''alice@erxes.io'' \<notin> set (orEmpty (emails c)))"
    by (simp add: store_def alice_def bob_def noFields_def orEmpty_def)
  from updateCustomer_excludes_itself [OF i, of quiet ?own store] pre
  have "fst (updateCustomer quiet ''A'' ?own store)
      = Inr (map_option (setFields ?own (now quiet))
              (find (\<lambda>c. customer_id c = ''A'') (customers store)))"
    by blast
  moreover have "map_option (setFields ?own (now quiet))
              (find (\<lambda>c. customer_id c = ''A'') (customers store))
      = Some (alice\<lparr>modifiedAt := 9\<rparr>)"
    by (simp add: store_def alice_def setFields_def orElse_def noFields_def quiet_def)
  moreover have "duplicatedField ?other (Some (Single ''A'')) (customers store)
      = Some ''Duplicated email''"
    by (simp add: duplicatedField_def noFields_def store_def alice_def bob_def notExcluded_def
        twitterCollides_def facebookCollides_def emailCollides_def orEmpty_def)
  with updateCustomer_excludes_itself [OF i, of quiet ?other store]
  have "fst (updateCustomer quiet ''A'' ?other store) = Inl (Error ''Duplicated email'')"
    by simp
  ultimately show ?thesis by simp
qed

text \<open>
  Where another record holds the primary email of \<open>A\<close> among its secondary emails, the
  update of \<open>A\<close> with its own primary email fails: only \<open>A\<close> itself is excluded.
\<close>

theorem updateCustomer_own_email_counterexample:
  "primaryEmail alice = Some ''alice@erxes.io''
   \<and> fst (updateCustomer quiet ''A'' (noFields\<lparr>primaryEmail := Some ''alice@erxes.io''\<rparr>)
          \<lparr>customers = [alice, carol], trace = []\<rparr>) = Inl (Error ''Duplicated email'')"
proof -
  have "duplicatedField (noFields\<lparr>primaryEmail := Some ''alice@erxes.io''\<rparr>) (Some (Single ''A''))
          (customers \<lparr>customers = [alice, carol], trace = []\<rparr>) = Some ''Duplicated email''"
    by (simp add: duplicatedField_def noFields_def alice_def carol_def notExcluded_def
        twitterCollides_def facebookCollides_def emailCollides_def orEmpty_def)
  from updateCustomer_rejected [OF this, of quiet] show ?thesis
    by (simp add: alice_def)
qed

end
